theory Spec2Isabelle
  imports Complex_Main "HOL-Library.Word"
begin

section \<open>Keyword spotting use case: sliding-window inference handler\<close>

text \<open>
  The development embeds \<^verbatim>\<open>ClassifyAudioHandler\<close> of
  \<^verbatim>\<open>source/use_case/kws/src/UseCaseHandler.cc\<close>. The classes the handler calls
  (\<^verbatim>\<open>audio::SlidingWindow\<close>, \<^verbatim>\<open>KWSPreProcess\<close>, \<^verbatim>\<open>Classifier\<close>, \<^verbatim>\<open>Model\<close>)
  live in headers that are not among the sources; each of them is either a parameter of
  the handler model or a definition marked as modelled from the specification.
\<close>

subsection \<open>Sliding window over an audio buffer\<close>

datatype error = OutOfRange | SequenceViolation | EmptyOutputTensor

text \<open>
  Modelled from the spec: a window (the type is part of the missing \<^verbatim>\<open>AudioUtils.hpp\<close>) is a
  view into the audio buffer, a start offset and a length in samples.
\<close>

record window =
  offset :: nat
  len :: nat

text \<open>
  Modelled from the spec: \<^verbatim>\<open>audio::SlidingWindow\<close> (declared in \<^verbatim>\<open>AudioUtils.hpp\<close>, which
  is missing). The slicer is built from the buffer length, the window size and the stride,
  and keeps a cursor counting the windows handed out so far. Sizes are \<^verbatim>\<open>size_t\<close> values
  and are taken as natural numbers.
\<close>

record slider =
  bufferLength :: nat
  windowSize :: nat
  stride :: nat
  cursor :: nat

text \<open>
  Modelled from the spec: the constructor of \<^verbatim>\<open>audio::SlidingWindow\<close>; a new slicer has handed
  out no window.
\<close>

definition SlidingWindow :: "nat \<Rightarrow> nat \<Rightarrow> nat \<Rightarrow> slider" where
  "SlidingWindow dataSize wsize wstride =
     \<lparr>bufferLength = dataSize, windowSize = wsize, stride = wstride, cursor = 0\<rparr>"

text \<open>
  Modelled from the spec: \<^verbatim>\<open>HasNext\<close>. A further window exists when the window that
  starts at the cursor position ends inside the buffer (the end offset of a window must not
  exceed the buffer length).
\<close>

definition HasNext :: "slider \<Rightarrow> bool" where
  "HasNext s \<longleftrightarrow> cursor s * stride s + windowSize s \<le> bufferLength s"

text \<open>
  Modelled from the spec: \<^verbatim>\<open>Next\<close> hands out the window at the cursor and advances the
  cursor; it fails with \<open>OutOfRange\<close> when \<^verbatim>\<open>HasNext\<close> is false.
\<close>

definition Next :: "slider \<Rightarrow> error + window \<times> slider" where
  "Next s =
     (if HasNext s
      then Inr (\<lparr>offset = cursor s * stride s, len = windowSize s\<rparr>, s\<lparr>cursor := cursor s + 1\<rparr>)
      else Inl OutOfRange)"

text \<open>
  Modelled from the spec: \<^verbatim>\<open>Index\<close> is the 0-based ordinal of the current window, the one
  most recently handed out by \<^verbatim>\<open>Next\<close>.
\<close>

definition Index :: "slider \<Rightarrow> nat" where
  "Index s = cursor s - 1"

text \<open>
  Modelled from the spec: \<^verbatim>\<open>TotalStrides\<close> is the number of advances available, one less
  than the number of windows.
\<close>

definition TotalStrides :: "slider \<Rightarrow> nat" where
  "TotalStrides s = (bufferLength s - windowSize s) div stride s"

text \<open>
  The samples a window shows of a buffer: in the source a window is the pointer that \<^verbatim>\<open>Next\<close>
  returns, read for the length of a window.
\<close>

definition window_samples :: "'a list \<Rightarrow> window \<Rightarrow> 'a list" where
  "window_samples buf w = take (len w) (drop (offset w) buf)"

text \<open>
  The traversal of lines 122-123 of the handler, \<^verbatim>\<open>while (HasNext()) { w = Next(); ... }\<close>,
  collecting the windows handed out. A traversal that never ends has no result.
\<close>

partial_function (option) traverse ::
  "slider \<Rightarrow> window list \<Rightarrow> (error + window list) option" where
  "traverse s acc =
     (if HasNext s
      then (case Next s of
              Inl e \<Rightarrow> Some (Inl e)
            | Inr (w, s') \<Rightarrow> traverse s' (acc @ [w]))
      else Some (Inr acc))"


text \<open>
  The number of windows the spec gives for a buffer: none when the buffer is shorter than a
  window, \<open>floor ((bufferLength - windowSize) / stride) + 1\<close> otherwise. The position of
  the \<open>i\<close>-th window: \<open>i\<close> strides after the buffer start.
\<close>

definition numWindows :: "nat \<Rightarrow> nat \<Rightarrow> nat \<Rightarrow> nat" where
  "numWindows dataSize wsize wstride =
     (if dataSize < wsize then 0 else (dataSize - wsize) div wstride + 1)"

definition window_at :: "nat \<Rightarrow> nat \<Rightarrow> nat \<Rightarrow> window" where
  "window_at wsize wstride i = \<lparr>offset = i * wstride, len = wsize\<rparr>"

subsection \<open>Application context, results and the objects behind the runner\<close>

text \<open>
  The exits of the handler that return \<^verbatim>\<open>false\<close>, one constructor per \<^verbatim>\<open>return false\<close> of
  the source (lines 56, 70, 76, 79, 133, 138, 143, 165), and one for a failing \<^verbatim>\<open>Next\<close>.
  The C++ function returns \<^verbatim>\<open>false\<close> at each of them and \<^verbatim>\<open>true\<close> at line 174.
\<close>

datatype failure =
    SetClipIndexFailed
  | ModelNotInitialised
  | InvalidInputTensorDims
  | InputTensorTooFewDims
  | WindowOutOfRange
  | PreProcessFailed
  | InferenceFailed
  | PostProcessFailed
  | PresentFailed

datatype profiler_event = StartProfiling string | StopProfiling | PrintProfilingResult

text \<open>
  Modelled from the spec: \<^verbatim>\<open>kws::KwsResult\<close> (\<^verbatim>\<open>KwsResult.hpp\<close> is missing; the field names
  are those read by \<^verbatim>\<open>PresentInferenceResult\<close>). A result holds the candidate list of its
  window, the time stamp, the inference index and the threshold it was built with. The time
  stamp and the threshold are \<^verbatim>\<open>float\<close> values, kept in a type parameter.
\<close>

record ('c, 'f) KwsResult =
  m_resultVec :: "'c list"
  m_timeStamp :: 'f
  m_inferenceNumber :: nat
  m_threshold :: 'f

text \<open>
  Modelled from the spec: the constructor of \<^verbatim>\<open>kws::KwsResult\<close>, which keeps its four
  arguments.
\<close>

definition mkKwsResult :: "'c list \<Rightarrow> 'f \<Rightarrow> nat \<Rightarrow> 'f \<Rightarrow> ('c, 'f) KwsResult" where
  "mkKwsResult resultVec timeStamp inferenceIdx scoreThreshold =
     \<lparr>m_resultVec = resultVec, m_timeStamp = timeStamp,
      m_inferenceNumber = inferenceIdx, m_threshold = scoreThreshold\<rparr>"

text \<open>
  What the handler reads and writes: the \<^verbatim>\<open>"clipIndex"\<close> and \<^verbatim>\<open>"results"\<close> entries of the
  application context (the latter absent until the first \<^verbatim>\<open>ctx.Set\<close>), the state of the
  objects behind \<^verbatim>\<open>UseCaseRunner\<close> (model, pre- and post-processing, \<^verbatim>\<open>singleInfResult\<close>),
  and the calls made on the profiler. The LCD and the log are not part of the model.
\<close>

record ('s, 'c, 'f) app =
  ctx_clipIndex :: "32 word"
  ctx_results :: "('c, 'f) KwsResult list option"
  pipeline :: 's
  profiler :: "profiler_event list"

text \<open>
  The collaborators of the handler whose code is missing are parameters:
  \<^item> the stored clips: \<^verbatim>\<open>get_audio_array\<close> gives the samples of a clip as a list, whose
    length is \<^verbatim>\<open>get_audio_array_size\<close>;
  \<^item> the two context helpers of \<^verbatim>\<open>UseCaseCommonUtils.hpp\<close>, which act on the
    \<^verbatim>\<open>"clipIndex"\<close> entry: \<^verbatim>\<open>SetAppCtxIfmIdx\<close> takes the entry and the requested index and
    gives its \<^verbatim>\<open>bool\<close> and the new entry, \<^verbatim>\<open>IncrementAppCtxIfmIdx\<close> gives the new entry;
  \<^item> the model queries: \<^verbatim>\<open>IsInited\<close>, and the number of dimensions of the input tensor
    (\<open>None\<close> for a null \<^verbatim>\<open>dims\<close> pointer), with the two index constants of
    \<^verbatim>\<open>MicroNetKwsModel\<close>;
  \<^item> the window size and stride that the constructor of \<^verbatim>\<open>KWSPreProcess\<close> computes;
  \<^item> the three stages of the runner, each giving its \<^verbatim>\<open>bool\<close> and the new state of the
    objects behind it; \<^verbatim>\<open>PreProcess\<close> receives the samples of the window and the value of
    \<^verbatim>\<open>m_audioWindowIndex\<close> written just before the call;
  \<^item> the content of \<^verbatim>\<open>singleInfResult\<close>, the score threshold, and the \<^verbatim>\<open>float\<close> values
    and operations of the time stamp: \<^verbatim>\<open>secondsPerSample\<close>, the conversion of a size and the
    product.
\<close>

record ('s, 'c, 'f) env =
  NUMBER_OF_FILES :: "32 word"
  get_audio_array :: "32 word \<Rightarrow> 16 word list"
  SetAppCtxIfmIdx :: "32 word \<Rightarrow> 32 word \<Rightarrow> bool \<times> 32 word"
  IncrementAppCtxIfmIdx :: "32 word \<Rightarrow> 32 word"
  IsInited :: "'s \<Rightarrow> bool"
  inputTensorDims :: "'s \<Rightarrow> int option"
  ms_inputRowsIdx :: nat
  ms_inputColsIdx :: nat
  m_audioDataWindowSize :: nat
  m_audioDataStride :: nat
  PreProcess :: "16 word list \<Rightarrow> nat \<Rightarrow> 's \<Rightarrow> bool \<times> 's"
  RunInference :: "'s \<Rightarrow> bool \<times> 's"
  PostProcess :: "'s \<Rightarrow> bool \<times> 's"
  singleInfResult :: "'s \<Rightarrow> 'c list"
  scoreThreshold :: 'f
  secondsPerSample :: 'f
  of_size :: "nat \<Rightarrow> 'f"
  fmul :: "'f \<Rightarrow> 'f \<Rightarrow> 'f"

subsection \<open>The handler\<close>

text \<open>
  \<^verbatim>\<open>PresentInferenceResult\<close> (lines 177-228) writes one row per result to the LCD and the
  log and returns \<^verbatim>\<open>true\<close> on every path.
\<close>

definition PresentInferenceResult :: "('c, 'f) KwsResult list \<Rightarrow> bool" where
  "PresentInferenceResult results = True"

definition minTensorDims :: "('s, 'c, 'f) env \<Rightarrow> int" where
  "minTensorDims E =
     int (if ms_inputRowsIdx E > ms_inputColsIdx E then ms_inputRowsIdx E else ms_inputColsIdx E)"

text \<open>
  Lines 126-149, the body of the window loop after \<^verbatim>\<open>Next\<close>: pre-processing with the
  window index, inference between the two profiler calls, post-processing, and the result
  record of the window. The first stage that returns \<^verbatim>\<open>false\<close> ends the handler.
\<close>

definition window_step ::
  "('s, 'c, 'f) env \<Rightarrow> 16 word list \<Rightarrow> window \<Rightarrow> nat \<Rightarrow> ('s, 'c, 'f) app
     \<Rightarrow> (failure + ('c, 'f) KwsResult) \<times> ('s, 'c, 'f) app" where
  "window_step E buf inferenceWindow idx st =
     (let (ok1, p1) = PreProcess E (window_samples buf inferenceWindow) idx (pipeline st);
          st1 = st\<lparr>pipeline := p1\<rparr>
      in if \<not> ok1 then (Inl PreProcessFailed, st1)
      else
        let (ok2, p2) = RunInference E p1;
            st2 = st1\<lparr>pipeline := p2, profiler := profiler st1 @ [StartProfiling ''Inference'']\<rparr>
        in if \<not> ok2 then (Inl InferenceFailed, st2)
        else
          let (ok3, p3) = PostProcess E p2;
              st3 = st2\<lparr>pipeline := p3, profiler := profiler st2 @ [StopProfiling]\<rparr>
          in if \<not> ok3 then (Inl PostProcessFailed, st3)
          else
            (Inr (mkKwsResult (singleInfResult E p3)
                    (fmul E (fmul E (of_size E idx) (secondsPerSample E))
                       (of_size E (m_audioDataStride E)))
                    idx (scoreThreshold E)),
             st3))"

text \<open>
  Lines 122-155, the loop over the windows of one clip. \<^verbatim>\<open>finalResults\<close> is local to the
  loop: an exit with a failure does not carry it.
\<close>

partial_function (option) window_loop ::
  "('s, 'c, 'f) env \<Rightarrow> 16 word list \<Rightarrow> slider \<Rightarrow> ('s, 'c, 'f) app \<Rightarrow> ('c, 'f) KwsResult list
     \<Rightarrow> ((failure + ('c, 'f) KwsResult list) \<times> ('s, 'c, 'f) app) option" where
  "window_loop E buf audioDataSlider st finalResults =
     (if HasNext audioDataSlider
      then (case Next audioDataSlider of
              Inl e \<Rightarrow> Some (Inl WindowOutOfRange, st)
            | Inr (inferenceWindow, slider') \<Rightarrow>
                (case window_step E buf inferenceWindow (Index slider') st of
                   (Inl f, st') \<Rightarrow> Some (Inl f, st')
                 | (Inr r, st') \<Rightarrow> window_loop E buf slider' st' (finalResults @ [r])))
      else Some (Inr finalResults, st))"

text \<open>
  Lines 101-170, one round of the \<^verbatim>\<open>do\<close> loop: the clip selected by the context is slid
  through, its results are stored in the context and presented, and the clip index moves on.
\<close>

definition process_clip ::
  "('s, 'c, 'f) env \<Rightarrow> ('s, 'c, 'f) app \<Rightarrow> ((failure + unit) \<times> ('s, 'c, 'f) app) option" where
  "process_clip E st =
     (let currentIndex = ctx_clipIndex st;
          buf = get_audio_array E currentIndex;
          audioDataSlider =
            SlidingWindow (length buf) (m_audioDataWindowSize E) (m_audioDataStride E)
      in case window_loop E buf audioDataSlider st [] of
           None \<Rightarrow> None
         | Some (Inl f, st') \<Rightarrow> Some (Inl f, st')
         | Some (Inr finalResults, st') \<Rightarrow>
             (let st1 = st'\<lparr>ctx_results := Some finalResults\<rparr>
              in if \<not> PresentInferenceResult finalResults then Some (Inl PresentFailed, st1)
                 else Some (Inr (),
                   st1\<lparr>profiler := profiler st1 @ [PrintProfilingResult],
                       ctx_clipIndex := IncrementAppCtxIfmIdx E (ctx_clipIndex st1)\<rparr>)))"

text \<open>Lines 100-172, the \<^verbatim>\<open>do ... while (runAll && clipIndex != initialClipIdx)\<close> loop.\<close>

partial_function (option) clips_loop ::
  "('s, 'c, 'f) env \<Rightarrow> bool \<Rightarrow> 32 word \<Rightarrow> ('s, 'c, 'f) app
     \<Rightarrow> ((failure + unit) \<times> ('s, 'c, 'f) app) option" where
  "clips_loop E runAll initialClipIdx st =
     (case process_clip E st of
        None \<Rightarrow> None
      | Some (Inl f, st') \<Rightarrow> Some (Inl f, st')
      | Some (Inr u, st') \<Rightarrow>
          (if runAll \<and> ctx_clipIndex st' \<noteq> initialClipIdx
           then clips_loop E runAll initialClipIdx st'
           else Some (Inr (), st')))"

text \<open>
  Lines 53-80, what the handler does before the first clip: the clip index is stored only
  when it is below \<^verbatim>\<open>NUMBER_OF_FILES\<close>, the model must be initialised, and its input
  tensor must have dimensions, at least \<^verbatim>\<open>minTensorDims\<close> of them. The result is the exit
  taken, if any, and the state at that point.
\<close>

definition handler_checks ::
  "('s, 'c, 'f) env \<Rightarrow> 32 word \<Rightarrow> ('s, 'c, 'f) app \<Rightarrow> failure option \<times> ('s, 'c, 'f) app" where
  "handler_checks E clipIndex st =
     (let (ok, st0) =
            (if clipIndex < NUMBER_OF_FILES E
             then (let (ok, idx) = SetAppCtxIfmIdx E (ctx_clipIndex st) clipIndex
                   in (ok, st\<lparr>ctx_clipIndex := idx\<rparr>))
             else (True, st))
      in if \<not> ok then (Some SetClipIndexFailed, st0)
      else if \<not> IsInited E (pipeline st0) then (Some ModelNotInitialised, st0)
      else (case inputTensorDims E (pipeline st0) of
              None \<Rightarrow> (Some InvalidInputTensorDims, st0)
            | Some dimsSize \<Rightarrow>
                if dimsSize < minTensorDims E then (Some InputTensorTooFewDims, st0)
                else (None, st0)))"

text \<open>
  Lines 46-175: the checks, then the loop over the clips, which starts at the clip index the
  context holds after the checks (\<^verbatim>\<open>initialClipIdx\<close>).
\<close>

definition ClassifyAudioHandler ::
  "('s, 'c, 'f) env \<Rightarrow> 32 word \<Rightarrow> bool \<Rightarrow> ('s, 'c, 'f) app
     \<Rightarrow> ((failure + unit) \<times> ('s, 'c, 'f) app) option" where
  "ClassifyAudioHandler E clipIndex runAll st =
     (case handler_checks E clipIndex st of
        (Some f, st0) \<Rightarrow> Some (Inl f, st0)
      | (None, st0) \<Rightarrow>
          (let initialClipIdx = ctx_clipIndex st0
           in clips_loop E runAll initialClipIdx st0))"

text \<open>The \<^verbatim>\<open>bool\<close> the C++ handler returns.\<close>

definition returned_true :: "((failure + unit) \<times> 'a) option \<Rightarrow> bool" where
  "returned_true r = (case r of Some (Inr u, st) \<Rightarrow> True | _ \<Rightarrow> False)"


subsection \<open>What the window loop computes\<close>

text \<open>
  The slicer the handler builds for a clip, the window with ordinal \<open>i\<close> of that slicer, and
  the number of windows the spec gives for the clip.
\<close>

definition clip_slider :: "('s, 'c, 'f) env \<Rightarrow> 16 word list \<Rightarrow> slider" where
  "clip_slider E buf =
     SlidingWindow (length buf) (m_audioDataWindowSize E) (m_audioDataStride E)"

definition clip_window :: "('s, 'c, 'f) env \<Rightarrow> nat \<Rightarrow> window" where
  "clip_window E i = window_at (m_audioDataWindowSize E) (m_audioDataStride E) i"

definition clip_numWindows :: "('s, 'c, 'f) env \<Rightarrow> 16 word list \<Rightarrow> nat" where
  "clip_numWindows E buf =
     numWindows (length buf) (m_audioDataWindowSize E) (m_audioDataStride E)"

text \<open>
  The window loop written over a given list of window ordinals: the steps are taken in list
  order, each result is appended, and the first failing step ends the run. The loop of the
  handler is compared with this function.
\<close>

fun run_windows ::
  "('s, 'c, 'f) env \<Rightarrow> 16 word list \<Rightarrow> nat list \<Rightarrow> ('s, 'c, 'f) app
     \<Rightarrow> ('c, 'f) KwsResult list \<Rightarrow> (failure + ('c, 'f) KwsResult list) \<times> ('s, 'c, 'f) app" where
  "run_windows E buf [] st acc = (Inr acc, st)"
| "run_windows E buf (i # is) st acc =
     (case window_step E buf (clip_window E i) i st of
        (Inl f, st') \<Rightarrow> (Inl f, st')
      | (Inr r, st') \<Rightarrow> run_windows E buf is st' (acc @ [r]))"

subsection \<open>The model test\<close>

text \<open>
  The class \<^verbatim>\<open>arm::app::Model\<close> is not among the sources; the test
  \<^verbatim>\<open>InferenceTestAD.cc\<close> constructs a model, initialises it and queries it. The operations
  of the model that the test calls are parameters, and \<^verbatim>\<open>RunInferenceRandom\<close> is taken by
  what it reports.
\<close>

record 'm model_ops =
  Model_construct :: 'm
  Model_Init :: "'m \<Rightarrow> bool \<times> 'm"
  Model_IsInited :: "'m \<Rightarrow> bool"
  RunInferenceRandom :: "'m \<Rightarrow> bool"



subsection \<open>Single-precision arithmetic\<close>

text \<open>
  The time stamp of a result is computed in the C++ type \<^verbatim>\<open>float\<close>, and
  \<^verbatim>\<open>secondsPerSample\<close> is a \<^verbatim>\<open>double\<close> quotient stored in a \<^verbatim>\<open>float\<close>. Both are taken as the
  IEEE 754 binary formats with 24 and 53 significant bits, rounding to nearest with ties
  to even. A value of either format is a rational number, so the operations are functions
  on \<^typ>\<open>rat\<close>. Overflow and the subnormal range are not modelled: the exponent is
  unbounded, which agrees with the formats on every value that the time stamp meets.
\<close>

definition round_ties_even :: "rat \<Rightarrow> int" where
  "round_ties_even x =
     (let f = \<lfloor>x\<rfloor>; d = x - of_int f
      in if d < 1 / 2 then f
         else if 1 / 2 < d then f + 1
         else if even f then f else f + 1)"

text \<open>
  The exponent \<open>e\<close> with \<open>2 ^ e \<le> x < 2 ^ (e + 1)\<close> of a positive \<open>x\<close>, reached by halving or
  doubling at most as often as the first argument allows.
\<close>

fun binade :: "nat \<Rightarrow> rat \<Rightarrow> int \<Rightarrow> int" where
  "binade 0 x e = e"
| "binade (Suc n) x e =
     (if 2 \<le> x then binade n (x / 2) (e + 1)
      else if x < 1 then binade n (x * 2) (e - 1)
      else e)"

definition pow2 :: "int \<Rightarrow> rat" where
  "pow2 k = (if 0 \<le> k then 2 ^ nat k else 1 / 2 ^ nat (- k))"

text \<open>Rounding to \<open>p\<close> significant bits.\<close>

definition fl :: "nat \<Rightarrow> rat \<Rightarrow> rat" where
  "fl p x =
     (if x = 0 then 0
      else let ulp = pow2 (binade 1100 \<bar>x\<bar> 0 - (int p - 1))
           in of_int (round_ties_even (x / ulp)) * ulp)"

definition fl32 :: "rat \<Rightarrow> rat" where
  "fl32 = fl 24"

definition fl64 :: "rat \<Rightarrow> rat" where
  "fl64 = fl 53"

text \<open>
  The \<^verbatim>\<open>float\<close> values and operations of the time stamp in these formats, for the
  sampling frequency \<^verbatim>\<open>ms_defaultSamplingFreq\<close> (a constant of the missing \<^verbatim>\<open>MicroNetKwsMFCC\<close>):
  line 88 divides the \<^verbatim>\<open>double\<close> \<^verbatim>\<open>1.0\<close> by it and stores the quotient in a \<^verbatim>\<open>float\<close>, and
  line 148 converts the index and the stride to \<^verbatim>\<open>float\<close> and multiplies from the left.
\<close>

definition binary32 :: "nat \<Rightarrow> ('s, 'c, rat) env \<Rightarrow> ('s, 'c, rat) env" where
  "binary32 ms_defaultSamplingFreq E =
     E\<lparr>secondsPerSample := fl32 (fl64 (1 / fl64 (of_nat ms_defaultSamplingFreq))),
       of_size := (\<lambda>n. fl32 (of_nat n)),
       fmul := (\<lambda>a b. fl32 (a * b))\<rparr>"

text \<open>The second argument of the \<^verbatim>\<open>KwsResult\<close> constructor at lines 147-149, for window \<open>i\<close>.\<close>

definition time_stamp :: "('s, 'c, 'f) env \<Rightarrow> nat \<Rightarrow> 'f" where
  "time_stamp E i =
     fmul E (fmul E (of_size E i) (secondsPerSample E)) (of_size E (m_audioDataStride E))"

subsection \<open>Feature cache\<close>

text \<open>
  Modelled from the spec: the feature cache of \<^verbatim>\<open>KWSPreProcess\<close> (\<^verbatim>\<open>KwsProcessing.hpp\<close> is
  missing). The configuration holds the window size and stride in samples and the frame
  length and frame stride of the feature extraction.
\<close>

record cache_config =
  cfg_windowSize :: nat
  cfg_stride :: nat
  cfg_frameLength :: nat
  cfg_frameStride :: nat

text \<open>
  Modelled from the spec: the state of the cache over one clip. It holds the index of the
  window it expects next, the feature matrix of the previous window (one row per time
  step), and the number of spectral transforms invoked so far.
\<close>

record 'v feature_cache =
  expectedIndex :: nat
  matrix :: "'v list"
  transforms :: nat

text \<open>Modelled from the spec: the cache as constructed for a clip.\<close>

definition new_cache :: "'v feature_cache" where
  "new_cache = \<lparr>expectedIndex = 0, matrix = [], transforms = 0\<rparr>"

text \<open>
  Modelled from the spec: the audio frame of a window that row \<open>j\<close> of the feature matrix is
  computed from, \<open>frameLength\<close> samples starting \<open>j\<close> frame strides into the window.
\<close>

definition frame_of :: "cache_config \<Rightarrow> 16 word list \<Rightarrow> nat \<Rightarrow> 16 word list" where
  "frame_of cfg w j = take (cfg_frameLength cfg) (drop (j * cfg_frameStride cfg) w)"

text \<open>
  Modelled from the spec: the rows a window needs computed, every time step for window 0,
  the trailing time steps that the stride newly exposes for a later window. \<open>timeSteps\<close> gives the number of time
  steps of a number of samples; the spec leaves its formula open, so it is a parameter.
\<close>

definition fresh_rows :: "(nat \<Rightarrow> nat) \<Rightarrow> cache_config \<Rightarrow> nat \<Rightarrow> nat list" where
  "fresh_rows timeSteps cfg windowIndex =
     (if windowIndex = 0 then [0 ..< timeSteps (cfg_windowSize cfg)]
      else [timeSteps (cfg_windowSize cfg) - timeSteps (cfg_stride cfg)
              ..< timeSteps (cfg_windowSize cfg)])"

text \<open>
  Modelled from the spec: \<^verbatim>\<open>ComputeOrReuse\<close>. A window index other than the expected one is
  a \<open>SequenceViolation\<close>. Window 0 has every row computed by the spectral transform \<open>mfcc\<close>.
  A later window keeps the rows of the previous matrix shifted up by the time steps of the
  stride and has the trailing rows computed. One transform is invoked per computed row.
\<close>

definition ComputeOrReuse ::
  "(nat \<Rightarrow> nat) \<Rightarrow> (16 word list \<Rightarrow> 'v) \<Rightarrow> cache_config \<Rightarrow> 16 word list \<Rightarrow> nat
     \<Rightarrow> 'v feature_cache \<Rightarrow> error + 'v list \<times> 'v feature_cache" where
  "ComputeOrReuse timeSteps mfcc cfg w windowIndex c =
     (if windowIndex \<noteq> expectedIndex c then Inl SequenceViolation
      else
        let js = fresh_rows timeSteps cfg windowIndex;
            computed = map (\<lambda>j. mfcc (frame_of cfg w j)) js;
            rows = (if windowIndex = 0 then computed
                    else drop (timeSteps (cfg_stride cfg)) (matrix c) @ computed)
        in Inr (rows,
                \<lparr>expectedIndex = windowIndex + 1, matrix = rows,
                 transforms = transforms c + length js\<rparr>))"

text \<open>
  A sequence of calls of \<^verbatim>\<open>ComputeOrReuse\<close> on one cache, each a window index with the window
  fed under it. The first failing call ends the sequence; otherwise the matrices are
  returned in call order.
\<close>

fun feed ::
  "(nat \<Rightarrow> nat) \<Rightarrow> (16 word list \<Rightarrow> 'v) \<Rightarrow> cache_config \<Rightarrow> (nat \<times> 16 word list) list
     \<Rightarrow> 'v feature_cache \<Rightarrow> error + 'v list list \<times> 'v feature_cache" where
  "feed timeSteps mfcc cfg [] c = Inr ([], c)"
| "feed timeSteps mfcc cfg ((windowIndex, w) # calls) c =
     (case ComputeOrReuse timeSteps mfcc cfg w windowIndex c of
        Inl e \<Rightarrow> Inl e
      | Inr (rows, c') \<Rightarrow>
          (case feed timeSteps mfcc cfg calls c' of
             Inl e \<Rightarrow> Inl e
           | Inr (ms, c'') \<Rightarrow> Inr (rows # ms, c'')))"

subsection \<open>Score filter\<close>

text \<open>
  Modelled from the spec: a classification candidate, a label with its normalised score
  (\<^verbatim>\<open>ClassificationResult.hpp\<close> is missing; \<^verbatim>\<open>PresentInferenceResult\<close> reads the fields
  \<^verbatim>\<open>m_label\<close> and \<^verbatim>\<open>m_normalisedVal\<close>). The position of the label in the label table is kept
  with it, since the tie-break refers to it. Scores are values of a linear order.
\<close>

record 'a candidate =
  m_label :: string
  m_normalisedVal :: 'a
  m_labelIdx :: nat

text \<open>
  Modelled from the spec: the candidates of an output tensor, one per score, each with the
  label at the same position of the label table.
\<close>

definition candidates :: "('q \<Rightarrow> 'a) \<Rightarrow> 'q list \<Rightarrow> string list \<Rightarrow> 'a candidate list" where
  "candidates normalise outputTensor labels =
     map (\<lambda>(i, l, q). \<lparr>m_label = l, m_normalisedVal = normalise q, m_labelIdx = i\<rparr>)
       (zip [0 ..< length outputTensor] (zip labels outputTensor))"

text \<open>
  Modelled from the spec: the stable descending sort, here by insertion: a candidate is put in front of the first candidate
  whose score is not above its own, and the candidates are inserted from the last to the
  first, so that among equal scores the earlier label stays in front.
\<close>

fun insert_desc :: "('a::linorder) candidate \<Rightarrow> 'a candidate list \<Rightarrow> 'a candidate list" where
  "insert_desc c [] = [c]"
| "insert_desc c (d # ds) =
     (if m_normalisedVal d \<le> m_normalisedVal c then c # d # ds else d # insert_desc c ds)"

text \<open>Modelled from the spec: the candidates sorted by descending score.\<close>

definition sort_desc :: "('a::linorder) candidate list \<Rightarrow> 'a candidate list" where
  "sort_desc cs = foldr insert_desc cs []"

text \<open>
  Modelled from the spec: \<^verbatim>\<open>Filter\<close> of the score filter (\<^verbatim>\<open>Classifier.hpp\<close> is missing).
  The raw scores are normalised, sorted in descending order, cut to the top K, and the
  candidates below the threshold are left out. An empty output tensor is an error.
\<close>

definition Filter ::
  "('q \<Rightarrow> 'a::linorder) \<Rightarrow> 'q list \<Rightarrow> string list \<Rightarrow> 'a \<Rightarrow> nat \<Rightarrow> error + 'a candidate list" where
  "Filter normalise outputTensor labels threshold topK =
     (if outputTensor = [] then Inl EmptyOutputTensor
      else Inr (filter (\<lambda>c. threshold \<le> m_normalisedVal c)
                  (take topK (sort_desc (candidates normalise outputTensor labels)))))"

text \<open>The order the spec asks of the returned list: descending score, ties by label index.\<close>

definition ranked_before :: "('a::linorder) candidate \<Rightarrow> 'a candidate \<Rightarrow> bool" where
  "ranked_before a b \<longleftrightarrow>
     m_normalisedVal b < m_normalisedVal a \<or>
     (m_normalisedVal a = m_normalisedVal b \<and> m_labelIdx a < m_labelIdx b)"

subsection \<open>A small configuration\<close>

text \<open>
  A model that is its ready flag, with an \<^verbatim>\<open>Init\<close> that succeeds, and a pipeline state
  that pairs the model with the number of inferences run.
\<close>

record model =
  m_inited :: bool

definition demo_model :: "model model_ops" where
  "demo_model =
     \<lparr>Model_construct = \<lparr>m_inited = False\<rparr>,
      Model_Init = (\<lambda>m. (True, m\<lparr>m_inited := True\<rparr>)),
      Model_IsInited = m_inited,
      RunInferenceRandom = (\<lambda>m. True)\<rparr>"

text \<open>
  Two stored clips of 10 and 3 samples, windows of 4 samples with stride 3, and stages that
  succeed. The time stamps of this configuration are exact products.
\<close>

definition demo_env :: "(model \<times> nat, nat, rat) env" where
  "demo_env =
     \<lparr>NUMBER_OF_FILES = 2,
      get_audio_array = (\<lambda>i. if i = 0 then replicate 10 0 else replicate 3 0),
      SetAppCtxIfmIdx = (\<lambda>cur idx. (True, idx)),
      IncrementAppCtxIfmIdx = (\<lambda>i. if i = 0 then 1 else 0),
      IsInited = (\<lambda>s. Model_IsInited demo_model (fst s)),
      inputTensorDims = (\<lambda>s. Some 4),
      ms_inputRowsIdx = 1,
      ms_inputColsIdx = 2,
      m_audioDataWindowSize = 4,
      m_audioDataStride = 3,
      PreProcess = (\<lambda>w idx s. (True, s)),
      RunInference = (\<lambda>s. (True, (fst s, snd s + 1))),
      PostProcess = (\<lambda>s. (True, s)),
      singleInfResult = (\<lambda>s. [snd s]),
      scoreThreshold = 7 / 10,
      secondsPerSample = 1 / 16000,
      of_size = of_nat,
      fmul = (*)\<rparr>"

text \<open>The same configuration with an inference that fails on its second run.\<close>

definition failing_env :: "(model \<times> nat, nat, rat) env" where
  "failing_env = demo_env\<lparr>RunInference := (\<lambda>s. (snd s \<noteq> 1, (fst s, snd s + 1)))\<rparr>"

definition demo_app :: "(model \<times> nat, nat, rat) app" where
  "demo_app =
     \<lparr>ctx_clipIndex = 0, ctx_results = None,
      pipeline = (snd (Model_Init demo_model (Model_construct demo_model)), 0),
      profiler = []\<rparr>"

text \<open>The states the two configurations reach on the first clip.\<close>

definition demo_after_clip0 :: "(model \<times> nat, nat, rat) app" where
  "demo_after_clip0 =
     \<lparr>ctx_clipIndex = 1,
      ctx_results = Some
        [\<lparr>m_resultVec = [1], m_timeStamp = 0, m_inferenceNumber = 0, m_threshold = 7 / 10\<rparr>,
         \<lparr>m_resultVec = [2], m_timeStamp = 3 / 16000, m_inferenceNumber = 1,
            m_threshold = 7 / 10\<rparr>,
         \<lparr>m_resultVec = [3], m_timeStamp = 3 / 8000, m_inferenceNumber = 2,
            m_threshold = 7 / 10\<rparr>],
      pipeline = (\<lparr>m_inited = True\<rparr>, 3),
      profiler =
        [StartProfiling ''Inference'', StopProfiling, StartProfiling ''Inference'',
         StopProfiling, StartProfiling ''Inference'', StopProfiling, PrintProfilingResult]\<rparr>"

definition failing_after_window1 :: "(model \<times> nat, nat, rat) app" where
  "failing_after_window1 =
     \<lparr>ctx_clipIndex = 0, ctx_results = None,
      pipeline = (\<lparr>m_inited = True\<rparr>, 2),
      profiler = [StartProfiling ''Inference'', StopProfiling, StartProfiling ''Inference'']\<rparr>"



text \<open>
  One stored clip of \<open>n\<close> samples at 16000 Hz, cut into windows of one second that do not
  overlap, with the time stamps computed in single precision.
\<close>

definition one_second_env :: "nat \<Rightarrow> (model \<times> nat, nat, rat) env" where
  "one_second_env n =
     binary32 16000
       (demo_env\<lparr>NUMBER_OF_FILES := 1,
                 get_audio_array := (\<lambda>i. replicate n 0),
                 IncrementAppCtxIfmIdx := (\<lambda>i. 0),
                 scoreThreshold := 1 / 2,
                 m_audioDataWindowSize := 16000,
                 m_audioDataStride := 16000\<rparr>)"

text \<open>The states it reaches on a clip of three seconds and on a clip of six seconds.\<close>

definition after_three_seconds :: "(model \<times> nat, nat, rat) app" where
  "after_three_seconds =
     \<lparr>ctx_clipIndex = 0,
      ctx_results = Some
        [\<lparr>m_resultVec = [1], m_timeStamp = 0, m_inferenceNumber = 0,
            m_threshold = 1 / 2\<rparr>,
         \<lparr>m_resultVec = [2], m_timeStamp = 1, m_inferenceNumber = 1,
            m_threshold = 1 / 2\<rparr>,
         \<lparr>m_resultVec = [3], m_timeStamp = 2, m_inferenceNumber = 2,
            m_threshold = 1 / 2\<rparr>],
      pipeline = (\<lparr>m_inited = True\<rparr>, 3),
      profiler =
        [StartProfiling ''Inference'', StopProfiling, StartProfiling ''Inference'',
         StopProfiling, StartProfiling ''Inference'', StopProfiling, PrintProfilingResult]\<rparr>"

definition after_six_seconds :: "(model \<times> nat, nat, rat) app" where
  "after_six_seconds =
     \<lparr>ctx_clipIndex = 0,
      ctx_results = Some
        [\<lparr>m_resultVec = [1], m_timeStamp = 0, m_inferenceNumber = 0,
            m_threshold = 1 / 2\<rparr>,
         \<lparr>m_resultVec = [2], m_timeStamp = 1, m_inferenceNumber = 1,
            m_threshold = 1 / 2\<rparr>,
         \<lparr>m_resultVec = [3], m_timeStamp = 2, m_inferenceNumber = 2,
            m_threshold = 1 / 2\<rparr>,
         \<lparr>m_resultVec = [4], m_timeStamp = 3, m_inferenceNumber = 3,
            m_threshold = 1 / 2\<rparr>,
         \<lparr>m_resultVec = [5], m_timeStamp = 4, m_inferenceNumber = 4,
            m_threshold = 1 / 2\<rparr>,
         \<lparr>m_resultVec = [6], m_timeStamp = 5 + 1 / 2097152, m_inferenceNumber = 5,
            m_threshold = 1 / 2\<rparr>],
      pipeline = (\<lparr>m_inited = True\<rparr>, 6),
      profiler =
        [StartProfiling ''Inference'', StopProfiling, StartProfiling ''Inference'',
         StopProfiling, StartProfiling ''Inference'', StopProfiling,
         StartProfiling ''Inference'', StopProfiling, StartProfiling ''Inference'',
         StopProfiling, StartProfiling ''Inference'', StopProfiling, PrintProfilingResult]\<rparr>"

section \<open>Properties\<close>

subsection \<open>The sliding window\<close>

lemma HasNext_iff:
  assumes "0 < stride s"
  shows "HasNext s \<longleftrightarrow> cursor s < numWindows (bufferLength s) (windowSize s) (stride s)"
proof (cases "bufferLength s < windowSize s")
  case True
  then show ?thesis by (simp add: HasNext_def numWindows_def)
next
  case False
  then have "cursor s * stride s + windowSize s \<le> bufferLength s
      \<longleftrightarrow> cursor s * stride s \<le> bufferLength s - windowSize s"
    by arith
  also have "\<dots> \<longleftrightarrow> cursor s \<le> (bufferLength s - windowSize s) div stride s"
    using assms by (simp add: less_eq_div_iff_mult_less_eq)
  finally show ?thesis using False by (simp add: HasNext_def numWindows_def less_Suc_eq_le)
qed

lemma HasNext_mono:
  "HasNext (s\<lparr>cursor := c\<rparr>) \<Longrightarrow> c' \<le> c \<Longrightarrow> HasNext (s\<lparr>cursor := c'\<rparr>)"
proof -
  assume h: "HasNext (s\<lparr>cursor := c\<rparr>)" and le: "c' \<le> c"
  from le have "c' * stride s + windowSize s \<le> c * stride s + windowSize s"
    by (simp add: mult_le_mono1)
  also from h have "\<dots> \<le> bufferLength s" by (simp add: HasNext_def)
  finally show ?thesis by (simp add: HasNext_def)
qed

lemma traverse_from:
  assumes "0 < stride s"
  shows "n = numWindows (bufferLength s) (windowSize s) (stride s) - cursor s \<Longrightarrow>
    traverse s acc = Some (Inr (acc @ map (window_at (windowSize s) (stride s))
      [cursor s ..< numWindows (bufferLength s) (windowSize s) (stride s)]))"
  using assms
proof (induction n arbitrary: s acc)
  case 0
  then have "\<not> HasNext s" by (simp add: HasNext_iff)
  with 0 show ?case by (subst traverse.simps) simp
next
  case (Suc n)
  let ?N = "numWindows (bufferLength s) (windowSize s) (stride s)"
  let ?s' = "s\<lparr>cursor := Suc (cursor s)\<rparr>"
  let ?w = "window_at (windowSize s) (stride s) (cursor s)"
  from Suc.prems have lt: "cursor s < ?N" by simp
  then have hn: "HasNext s" using Suc.prems by (simp add: HasNext_iff)
  have IH: "traverse ?s' (acc @ [?w]) =
      Some (Inr ((acc @ [?w]) @ map (window_at (windowSize s) (stride s)) [Suc (cursor s) ..< ?N]))"
    using Suc.IH [of ?s' "acc @ [?w]"] Suc.prems by simp
  have upt: "[cursor s ..< ?N] = cursor s # [Suc (cursor s) ..< ?N]"
    using lt by (simp add: upt_conv_Cons)
  show ?case using hn IH
    by (subst traverse.simps) (simp add: Next_def window_at_def upt)
qed

lemma window_in_bounds:
  assumes "i < numWindows n wsize wstride"
  shows "i * wstride + wsize \<le> n"
proof -
  from assms have le: "wsize \<le> n" and i: "i \<le> (n - wsize) div wstride"
    by (auto simp: numWindows_def split: if_splits)
  have "i * wstride \<le> ((n - wsize) div wstride) * wstride"
    using i by (rule mult_le_mono1)
  also have "\<dots> \<le> n - wsize" by simp
  finally show ?thesis using le by arith
qed

lemma numWindows_one_second_windows: "numWindows 48000 16000 16000 = 3"
  by (simp add: numWindows_def)

lemma numWindows_TotalStrides:
  "windowSize s \<le> bufferLength s \<Longrightarrow>
     numWindows (bufferLength s) (windowSize s) (stride s) = TotalStrides s + 1"
  by (simp add: numWindows_def TotalStrides_def)

text \<open>
  Claim C1. For a buffer of at least one window and a positive stride, the traversal by
  \<^verbatim>\<open>HasNext\<close>/\<^verbatim>\<open>Next\<close> ends and hands out exactly
  \<open>floor ((bufferLength - windowSize) / stride) + 1\<close> windows; window \<open>i\<close> starts \<open>i\<close> strides
  after the buffer start and shows exactly \<open>windowSize\<close> samples of the buffer. (The bounds
  \<open>0 < windowSize\<close> and \<open>stride \<le> windowSize\<close> of the claim are not needed.)
\<close>

theorem C1_sliding_window_count:
  assumes "0 < wstride" and "wsize \<le> length buf"
  shows "\<exists>ws. traverse (SlidingWindow (length buf) wsize wstride) [] = Some (Inr ws) \<and>
           length ws = (length buf - wsize) div wstride + 1 \<and>
           (\<forall>i < length ws.
              offset (ws ! i) = i * wstride \<and> len (ws ! i) = wsize \<and>
              window_samples buf (ws ! i) = take wsize (drop (i * wstride) buf) \<and>
              length (window_samples buf (ws ! i)) = wsize)"
proof -
  define N where "N = numWindows (length buf) wsize wstride"
  define ws where "ws = map (window_at wsize wstride) [0 ..< N]"
  have N: "N = (length buf - wsize) div wstride + 1"
    using assms by (simp add: N_def numWindows_def)
  have len: "length ws = N" by (simp add: ws_def)
  have tr: "traverse (SlidingWindow (length buf) wsize wstride) [] = Some (Inr ws)"
    using traverse_from [of "SlidingWindow (length buf) wsize wstride" N "[]"] assms
    by (simp add: SlidingWindow_def ws_def N_def)
  have each: "offset (ws ! i) = i * wstride \<and> len (ws ! i) = wsize \<and>
      window_samples buf (ws ! i) = take wsize (drop (i * wstride) buf) \<and>
      length (window_samples buf (ws ! i)) = wsize" if "i < length ws" for i
  proof -
    from that have i: "i < N" by (simp add: len)
    then have "i * wstride + wsize \<le> length buf"
      unfolding N_def by (rule window_in_bounds)
    moreover have "ws ! i = window_at wsize wstride i"
      using i by (simp add: ws_def)
    ultimately show ?thesis
      by (simp add: window_at_def window_samples_def)
  qed
  from tr len N each show ?thesis by blast
qed

theorem C1_sliding_window_count_witness:
  "\<exists>ws. traverse (SlidingWindow 10 4 3) [] = Some (Inr ws) \<and> length ws = 3 \<and>
     (\<forall>i < length ws. offset (ws ! i) = i * 3 \<and> len (ws ! i) = 4 \<and>
        window_samples (replicate 10 (0 :: 16 word)) (ws ! i) = replicate 4 0)"
proof -
  have "(0::nat) < 3" and "4 \<le> length (replicate 10 (0 :: 16 word))" by simp_all
  from C1_sliding_window_count [OF this] obtain ws where
    ws: "traverse (SlidingWindow 10 4 3) [] = Some (Inr ws)" "length ws = 3"
      "\<forall>i < length ws. offset (ws ! i) = i * 3 \<and> len (ws ! i) = 4 \<and>
         window_samples (replicate 10 (0 :: 16 word)) (ws ! i)
           = take 4 (drop (i * 3) (replicate 10 0))"
    by auto
  have "\<forall>i < length ws. window_samples (replicate 10 (0 :: 16 word)) (ws ! i) = replicate 4 0"
  proof (intro allI impI)
    fix i assume "i < length ws"
    with ws(2) have "i < 3" by simp
    then have "i = 0 \<or> i = 1 \<or> i = 2" by arith
    with ws(3) \<open>i < length ws\<close> show "window_samples (replicate 10 (0 :: 16 word)) (ws ! i) = replicate 4 0"
      by auto
  qed
  with ws show ?thesis by auto
qed

subsection \<open>One window and the loop over the windows\<close>

lemma HasNext_clip_slider:
  "0 < m_audioDataStride E \<Longrightarrow>
     HasNext ((clip_slider E buf)\<lparr>cursor := c\<rparr>) \<longleftrightarrow> c < clip_numWindows E buf"
  by (simp add: HasNext_iff clip_slider_def SlidingWindow_def clip_numWindows_def)

lemma Next_clip_slider:
  "HasNext ((clip_slider E buf)\<lparr>cursor := c\<rparr>) \<Longrightarrow>
     Next ((clip_slider E buf)\<lparr>cursor := c\<rparr>) =
       Inr (clip_window E c, (clip_slider E buf)\<lparr>cursor := Suc c\<rparr>)"
  by (simp add: Next_def clip_slider_def SlidingWindow_def clip_window_def window_at_def)

lemma Index_after_Next: "Index (s\<lparr>cursor := Suc c\<rparr>) = c"
  by (simp add: Index_def)

lemma clip_slider_cursor0: "(clip_slider E buf)\<lparr>cursor := 0\<rparr> = clip_slider E buf"
  by (simp add: clip_slider_def SlidingWindow_def)

lemma short_buffer_no_window:
  assumes "length buf < m_audioDataWindowSize E"
  shows "\<not> HasNext (clip_slider E buf)"
  using assms by (simp add: HasNext_def clip_slider_def SlidingWindow_def)

lemma window_step_frame:
  "window_step E buf w i st = (r, st') \<Longrightarrow>
     ctx_results st' = ctx_results st \<and> ctx_clipIndex st' = ctx_clipIndex st"
  by (auto simp: window_step_def Let_def split: prod.splits if_splits)

lemma window_step_index:
  "window_step E buf w i st = (Inr r, st') \<Longrightarrow> m_inferenceNumber r = i"
  by (auto simp: window_step_def Let_def mkKwsResult_def split: prod.splits if_splits)

text \<open>
  The time stamp of a result is the product, in the \<^verbatim>\<open>float\<close> operations, of the window
  index, \<^verbatim>\<open>secondsPerSample\<close> and the stride. Which number it is depends on the rounding
  of these operations, which are parameters here.
\<close>

lemma window_step_timeStamp:
  "window_step E buf w i st = (Inr r, st') \<Longrightarrow>
     m_timeStamp r =
       fmul E (fmul E (of_size E i) (secondsPerSample E)) (of_size E (m_audioDataStride E)) \<and>
     m_threshold r = scoreThreshold E \<and>
     m_resultVec r = singleInfResult E (pipeline st')"
  by (auto simp: window_step_def Let_def mkKwsResult_def split: prod.splits if_splits)

lemma window_step_failures:
  "window_step E buf w i st = (Inl f, st') \<Longrightarrow>
     f = PreProcessFailed \<or> f = InferenceFailed \<or> f = PostProcessFailed"
  by (auto simp: window_step_def Let_def split: prod.splits if_splits)

text \<open>
  The exit a step takes, read off the three stages: a stage that reports failure ends the
  step with the failure of that stage, in the state right after it, and the stages after
  it are not run.
\<close>

lemma window_step_PreProcess_fails:
  assumes "\<not> fst (PreProcess E (window_samples buf w) i (pipeline st))"
  shows "window_step E buf w i st =
    (Inl PreProcessFailed,
     st\<lparr>pipeline := snd (PreProcess E (window_samples buf w) i (pipeline st))\<rparr>)"
  using assms by (simp add: window_step_def Let_def case_prod_unfold)

lemma window_step_RunInference_fails:
  assumes "fst (PreProcess E (window_samples buf w) i (pipeline st))"
    and "\<not> fst (RunInference E (snd (PreProcess E (window_samples buf w) i (pipeline st))))"
  shows "window_step E buf w i st =
    (Inl InferenceFailed,
     st\<lparr>pipeline :=
          snd (RunInference E (snd (PreProcess E (window_samples buf w) i (pipeline st)))),
        profiler := profiler st @ [StartProfiling ''Inference'']\<rparr>)"
  using assms by (simp add: window_step_def Let_def case_prod_unfold)

lemma window_step_PostProcess_fails:
  assumes "fst (PreProcess E (window_samples buf w) i (pipeline st))"
    and "fst (RunInference E (snd (PreProcess E (window_samples buf w) i (pipeline st))))"
    and "\<not> fst (PostProcess E (snd (RunInference E
           (snd (PreProcess E (window_samples buf w) i (pipeline st))))))"
  shows "window_step E buf w i st =
    (Inl PostProcessFailed,
     st\<lparr>pipeline := snd (PostProcess E (snd (RunInference E
            (snd (PreProcess E (window_samples buf w) i (pipeline st)))))),
        profiler := profiler st @ [StartProfiling ''Inference'', StopProfiling]\<rparr>)"
  using assms by (simp add: window_step_def Let_def case_prod_unfold)

lemma window_step_goes_through:
  assumes "fst (PreProcess E (window_samples buf w) i (pipeline st))"
    and "fst (RunInference E (snd (PreProcess E (window_samples buf w) i (pipeline st))))"
    and "fst (PostProcess E (snd (RunInference E
           (snd (PreProcess E (window_samples buf w) i (pipeline st))))))"
  shows "window_step E buf w i st =
    (Inr (mkKwsResult
            (singleInfResult E (snd (PostProcess E (snd (RunInference E
               (snd (PreProcess E (window_samples buf w) i (pipeline st))))))))
            (time_stamp E i) i (scoreThreshold E)),
     st\<lparr>pipeline := snd (PostProcess E (snd (RunInference E
            (snd (PreProcess E (window_samples buf w) i (pipeline st)))))),
        profiler := profiler st @ [StartProfiling ''Inference'', StopProfiling]\<rparr>)"
  using assms by (simp add: window_step_def Let_def case_prod_unfold time_stamp_def)

lemma window_step_goes_through_iff:
  "(\<exists>r st'. window_step E buf w i st = (Inr r, st')) \<longleftrightarrow>
     fst (PreProcess E (window_samples buf w) i (pipeline st)) \<and>
     fst (RunInference E (snd (PreProcess E (window_samples buf w) i (pipeline st)))) \<and>
     fst (PostProcess E (snd (RunInference E
            (snd (PreProcess E (window_samples buf w) i (pipeline st))))))"
  by (auto simp: window_step_def Let_def case_prod_unfold)

lemma run_windows_frame:
  "run_windows E buf is st acc = (r, st') \<Longrightarrow>
     ctx_results st' = ctx_results st \<and> ctx_clipIndex st' = ctx_clipIndex st"
proof (induction "is" arbitrary: st acc)
  case Nil
  then show ?case by simp
next
  case (Cons i "is")
  then show ?case
    by (auto split: prod.splits sum.splits dest: window_step_frame)
qed

lemma run_windows_append:
  "run_windows E buf (xs @ ys) st acc =
     (case run_windows E buf xs st acc of
        (Inl f, st') \<Rightarrow> (Inl f, st')
      | (Inr acc', st') \<Rightarrow> run_windows E buf ys st' acc')"
  by (induction xs arbitrary: st acc) (auto split: prod.splits sum.splits)

lemma run_windows_indices:
  "run_windows E buf is st acc = (Inr rs, st') \<Longrightarrow>
     \<exists>new. rs = acc @ new \<and> map m_inferenceNumber new = is"
proof (induction "is" arbitrary: st acc)
  case Nil
  then show ?case by simp
next
  case (Cons i "is")
  from Cons.prems obtain r st1 where
    step: "window_step E buf (clip_window E i) i st = (Inr r, st1)" and
    rest: "run_windows E buf is st1 (acc @ [r]) = (Inr rs, st')"
    by (auto split: prod.splits sum.splits)
  from Cons.IH [OF rest] obtain new where "rs = (acc @ [r]) @ new" "map m_inferenceNumber new = is"
    by blast
  with window_step_index [OF step] show ?case by auto
qed

lemma run_windows_prefix:
  assumes "run_windows E buf [0 ..< n] st [] = (Inr rs, st1)" and "i < n"
  shows "\<exists>sti sti'. run_windows E buf [0 ..< i] st [] = (Inr (take i rs), sti) \<and>
           window_step E buf (clip_window E i) i sti = (Inr (rs ! i), sti')"
proof -
  from \<open>i < n\<close> have split: "[0 ..< n] = [0 ..< i] @ i # [Suc i ..< n]"
    by (metis le_add1 less_imp_add_positive upt_add_eq_append upt_conv_Cons plus_nat.add_0)
  obtain r1 sti where pre: "run_windows E buf [0 ..< i] st [] = (r1, sti)"
    by (cases "run_windows E buf [0 ..< i] st []")
  from assms(1) pre obtain acc where r1: "r1 = Inr acc"
    unfolding split run_windows_append by (cases r1) auto
  obtain r2 sti' where step: "window_step E buf (clip_window E i) i sti = (r2, sti')"
    by (cases "window_step E buf (clip_window E i) i sti")
  from assms(1) pre r1 step obtain r where r2: "r2 = Inr r"
    unfolding split run_windows_append by (cases r2) auto
  from assms(1) pre r1 step r2
  have rest: "run_windows E buf [Suc i ..< n] sti' (acc @ [r]) = (Inr rs, st1)"
    unfolding split run_windows_append by simp
  from run_windows_indices [OF pre [unfolded r1]] have "length acc = i"
    by (auto dest: arg_cong [where f = length])
  moreover from run_windows_indices [OF rest] obtain new where "rs = (acc @ [r]) @ new"
    by blast
  ultimately have "take i rs = acc" "rs ! i = r"
    by (simp_all add: nth_append)
  with pre r1 step r2 show ?thesis by simp
qed

text \<open>One unfolding of the loop at a cursor position.\<close>

lemma window_loop_stop:
  "\<not> HasNext s \<Longrightarrow> window_loop E buf s st acc = Some (Inr acc, st)"
  by (subst window_loop.simps) simp

lemma window_loop_unfold:
  assumes "HasNext ((clip_slider E buf)\<lparr>cursor := c\<rparr>)"
  shows "window_loop E buf ((clip_slider E buf)\<lparr>cursor := c\<rparr>) st acc =
     (case window_step E buf (clip_window E c) c st of
        (Inl f, st') \<Rightarrow> Some (Inl f, st')
      | (Inr r, st') \<Rightarrow>
          window_loop E buf ((clip_slider E buf)\<lparr>cursor := Suc c\<rparr>) st' (acc @ [r]))"
  using assms
  by (subst window_loop.simps) (simp add: Next_clip_slider Index_after_Next)

lemma window_loop_total:
  assumes "0 < m_audioDataStride E"
  shows "n = clip_numWindows E buf - c \<Longrightarrow>
    window_loop E buf ((clip_slider E buf)\<lparr>cursor := c\<rparr>) st acc =
      Some (run_windows E buf [c ..< clip_numWindows E buf] st acc)"
proof (induction n arbitrary: c st acc)
  case 0
  then have "\<not> HasNext ((clip_slider E buf)\<lparr>cursor := c\<rparr>)"
    using assms by (simp add: HasNext_clip_slider)
  with 0 show ?case by (simp add: window_loop_stop)
next
  case (Suc n)
  from Suc.prems have lt: "c < clip_numWindows E buf" by simp
  then have hn: "HasNext ((clip_slider E buf)\<lparr>cursor := c\<rparr>)"
    using assms by (simp add: HasNext_clip_slider)
  have IH: "\<And>st' acc'. window_loop E buf ((clip_slider E buf)\<lparr>cursor := Suc c\<rparr>) st' acc' =
      Some (run_windows E buf [Suc c ..< clip_numWindows E buf] st' acc')"
    using Suc.IH [of "Suc c"] Suc.prems by simp
  have upt: "[c ..< clip_numWindows E buf] = c # [Suc c ..< clip_numWindows E buf]"
    using lt by (simp add: upt_conv_Cons)
  show ?case
    by (simp add: window_loop_unfold [OF hn] upt IH split: prod.splits sum.splits)
qed

lemma window_loop_clip:
  assumes "0 < m_audioDataStride E"
  shows "window_loop E buf (clip_slider E buf) st [] =
           Some (run_windows E buf [0 ..< clip_numWindows E buf] st [])"
  using window_loop_total [OF assms, of "clip_numWindows E buf" buf 0 st "[]"]
  by (simp add: clip_slider_cursor0)

text \<open>Partial correctness of the loop, whatever the stride.\<close>

lemma window_loop_returns:
  "window_loop E buf s st acc = Some y \<Longrightarrow> \<forall>c rs st'. s = (clip_slider E buf)\<lparr>cursor := c\<rparr> \<and> y = (Inr rs, st') \<longrightarrow>
    (\<exists>n. run_windows E buf [c ..< c + n] st acc = (Inr rs, st') \<and>
         (\<forall>i<n. HasNext ((clip_slider E buf)\<lparr>cursor := c + i\<rparr>)) \<and>
         \<not> HasNext ((clip_slider E buf)\<lparr>cursor := c + n\<rparr>))"
proof (induction E buf s st acc y rule: window_loop.raw_induct [rotated 1, consumes 1])
  case (1 loop E buf s st acc y)
  show ?case
  proof (intro allI impI, elim conjE)
    fix c rs st'
    assume s: "s = (clip_slider E buf)\<lparr>cursor := c\<rparr>" and y: "y = (Inr rs, st')"
    show "\<exists>n. run_windows E buf [c ..< c + n] st acc = (Inr rs, st') \<and>
         (\<forall>i<n. HasNext ((clip_slider E buf)\<lparr>cursor := c + i\<rparr>)) \<and>
         \<not> HasNext ((clip_slider E buf)\<lparr>cursor := c + n\<rparr>)"
    proof (cases "HasNext s")
      case False
      with 1(2) y s have "rs = acc" "st' = st" by simp_all
      with False s show ?thesis by (intro exI [of _ 0]) simp
    next
      case True
      with 1(2) y s obtain r st1 where
        step: "window_step E buf (clip_window E c) c st = (Inr r, st1)" and
        rec: "loop E buf ((clip_slider E buf)\<lparr>cursor := Suc c\<rparr>) st1 (acc @ [r]) = Some (Inr rs, st')"
        by (auto simp: Next_clip_slider Index_after_Next split: prod.splits sum.splits)
      from 1(1) [OF rec] obtain n where
        n: "run_windows E buf [Suc c ..< Suc c + n] st1 (acc @ [r]) = (Inr rs, st')"
           "\<forall>i<n. HasNext ((clip_slider E buf)\<lparr>cursor := Suc c + i\<rparr>)"
           "\<not> HasNext ((clip_slider E buf)\<lparr>cursor := Suc c + n\<rparr>)"
        by blast
      have upt: "[c ..< c + Suc n] = c # [Suc c ..< Suc c + n]"
        by (simp add: upt_conv_Cons)
      have "\<forall>i<Suc n. HasNext ((clip_slider E buf)\<lparr>cursor := c + i\<rparr>)"
      proof (intro allI impI)
        fix i assume "i < Suc n"
        show "HasNext ((clip_slider E buf)\<lparr>cursor := c + i\<rparr>)"
        proof (cases i)
          case 0
          with True s show ?thesis by simp
        next
          case (Suc j)
          with \<open>i < Suc n\<close> n(2) show ?thesis by simp
        qed
      qed
      with n step upt show ?thesis
        by (intro exI [of _ "Suc n"]) simp
    qed
  qed
qed

text \<open>A failing step ends the loop at once, wherever the traversal stands.\<close>

lemma window_loop_fail_at:
  "HasNext ((clip_slider E buf)\<lparr>cursor := c + k\<rparr>) \<Longrightarrow>
   run_windows E buf [c ..< c + k] st acc = (Inr acc', st_k) \<Longrightarrow>
   window_step E buf (clip_window E (c + k)) (c + k) st_k = (Inl f, st_f) \<Longrightarrow>
   window_loop E buf ((clip_slider E buf)\<lparr>cursor := c\<rparr>) st acc = Some (Inl f, st_f)"
proof (induction k arbitrary: c st acc)
  case 0
  then show ?case by (simp add: window_loop_unfold)
next
  case (Suc k)
  from Suc.prems(1) have hn: "HasNext ((clip_slider E buf)\<lparr>cursor := c\<rparr>)"
    by (rule HasNext_mono) simp
  have upt: "[c ..< c + Suc k] = c # [Suc c ..< Suc c + k]"
    by (simp add: upt_conv_Cons)
  from Suc.prems(2) obtain r st1 where
    step: "window_step E buf (clip_window E c) c st = (Inr r, st1)" and
    rest: "run_windows E buf [Suc c ..< Suc c + k] st1 (acc @ [r]) = (Inr acc', st_k)"
    unfolding upt by (auto split: prod.splits sum.splits)
  have "window_loop E buf ((clip_slider E buf)\<lparr>cursor := Suc c\<rparr>) st1 (acc @ [r]) =
      Some (Inl f, st_f)"
    using Suc.IH [of "Suc c" st1 "acc @ [r]"] Suc.prems(1,3) rest by simp
  with step show ?case by (simp add: window_loop_unfold [OF hn])
qed

text \<open>The exits a clip can take.\<close>

lemma window_loop_failures:
  "window_loop E buf s st acc = Some y \<Longrightarrow>
     \<forall>f st'. y = (Inl f, st') \<longrightarrow>
       f = WindowOutOfRange \<or> f = PreProcessFailed \<or> f = InferenceFailed \<or> f = PostProcessFailed"
proof (induction E buf s st acc y rule: window_loop.raw_induct [rotated 1, consumes 1])
  case (1 loop E buf s st acc y)
  show ?case
  proof (intro allI impI)
    fix f st' assume y: "y = (Inl f, st')"
    show "f = WindowOutOfRange \<or> f = PreProcessFailed \<or> f = InferenceFailed \<or> f = PostProcessFailed"
    proof (cases "HasNext s")
      case False
      with 1(2) y show ?thesis by simp
    next
      case True
      show ?thesis
      proof (cases "Next s")
        case (Inl e)
        with True 1(2) y show ?thesis by simp
      next
        case (Inr p)
        obtain w s' where p: "p = (w, s')" by (cases p)
        obtain r st1 where step: "window_step E buf w (Index s') st = (r, st1)"
          by (cases "window_step E buf w (Index s') st")
        show ?thesis
        proof (cases r)
          case (Inl g)
          with True Inr p step 1(2) y have "f = g" by simp
          with step Inl window_step_failures [of E buf w "Index s'" st g st1] show ?thesis
            by simp
        next
          case (Inr k)
          with True \<open>Next s = Inr p\<close> p step 1(2) y
          have "loop E buf s' st1 (acc @ [k]) = Some (Inl f, st')" by simp
          from 1(1) [OF this] show ?thesis by simp
        qed
      qed
    qed
  qed
qed

subsection \<open>One clip\<close>

text \<open>The state a clip leaves behind when all its windows went through.\<close>

lemma process_clip_eq:
  assumes "window_loop E (get_audio_array E (ctx_clipIndex st))
             (clip_slider E (get_audio_array E (ctx_clipIndex st))) st [] = Some (r, st1)"
  shows "process_clip E st =
     (case r of
        Inl f \<Rightarrow> Some (Inl f, st1)
      | Inr rs \<Rightarrow> Some (Inr (),
          st1\<lparr>ctx_results := Some rs, profiler := profiler st1 @ [PrintProfilingResult],
              ctx_clipIndex := IncrementAppCtxIfmIdx E (ctx_clipIndex st1)\<rparr>))"
  using assms
  by (simp add: process_clip_def clip_slider_def PresentInferenceResult_def Let_def
           split: sum.splits)

lemma process_clip_success:
  assumes "process_clip E st = Some (Inr (), st')"
  shows "\<exists>rs st1. window_loop E (get_audio_array E (ctx_clipIndex st))
             (clip_slider E (get_audio_array E (ctx_clipIndex st))) st [] = Some (Inr rs, st1) \<and>
           st' = st1\<lparr>ctx_results := Some rs, profiler := profiler st1 @ [PrintProfilingResult],
                     ctx_clipIndex := IncrementAppCtxIfmIdx E (ctx_clipIndex st1)\<rparr>"
proof -
  let ?buf = "get_audio_array E (ctx_clipIndex st)"
  from assms obtain r st1 where wl: "window_loop E ?buf (clip_slider E ?buf) st [] = Some (r, st1)"
    by (cases "window_loop E ?buf (clip_slider E ?buf) st []")
       (auto simp: process_clip_def clip_slider_def Let_def)
  from process_clip_eq [OF wl] assms show ?thesis
    using wl by (cases r) auto
qed

lemma process_clip_failures:
  assumes "process_clip E st = Some (Inl f, st')"
  shows "f = WindowOutOfRange \<or> f = PreProcessFailed \<or> f = InferenceFailed \<or> f = PostProcessFailed"
proof -
  let ?buf = "get_audio_array E (ctx_clipIndex st)"
  from assms obtain r st1 where wl: "window_loop E ?buf (clip_slider E ?buf) st [] = Some (r, st1)"
    by (cases "window_loop E ?buf (clip_slider E ?buf) st []")
       (auto simp: process_clip_def clip_slider_def Let_def)
  from process_clip_eq [OF wl] assms have "r = Inl f"
    by (cases r) auto
  with window_loop_failures [OF wl] show ?thesis by simp
qed

lemma process_clip_total:
  assumes "0 < m_audioDataStride E"
  shows "process_clip E st =
     (case run_windows E (get_audio_array E (ctx_clipIndex st))
             [0 ..< clip_numWindows E (get_audio_array E (ctx_clipIndex st))] st [] of
        (Inl f, st1) \<Rightarrow> Some (Inl f, st1)
      | (Inr rs, st1) \<Rightarrow> Some (Inr (),
          st1\<lparr>ctx_results := Some rs, profiler := profiler st1 @ [PrintProfilingResult],
              ctx_clipIndex := IncrementAppCtxIfmIdx E (ctx_clipIndex st1)\<rparr>))"
proof -
  let ?buf = "get_audio_array E (ctx_clipIndex st)"
  obtain r st1 where rw: "run_windows E ?buf [0 ..< clip_numWindows E ?buf] st [] = (r, st1)"
    by (cases "run_windows E ?buf [0 ..< clip_numWindows E ?buf] st []")
  with window_loop_clip [OF assms, of ?buf st]
  have "window_loop E ?buf (clip_slider E ?buf) st [] = Some (r, st1)" by simp
  from process_clip_eq [OF this] rw show ?thesis by simp
qed

lemma process_clip_results_in_order:
  assumes "process_clip E st = Some (Inr (), st')"
  shows "\<exists>rs. ctx_results st' = Some rs \<and>
           map m_inferenceNumber rs = [0 ..< length rs] \<and>
           (\<forall>i < length rs. \<exists>sti sti'.
              run_windows E (get_audio_array E (ctx_clipIndex st)) [0 ..< i] st []
                = (Inr (take i rs), sti) \<and>
              window_step E (get_audio_array E (ctx_clipIndex st)) (clip_window E i) i sti
                = (Inr (rs ! i), sti')) \<and>
           (0 < m_audioDataStride E \<longrightarrow>
              length rs = clip_numWindows E (get_audio_array E (ctx_clipIndex st)))"
proof -
  let ?buf = "get_audio_array E (ctx_clipIndex st)"
  from process_clip_success [OF assms] obtain rs st1 where
    wl: "window_loop E ?buf (clip_slider E ?buf) st [] = Some (Inr rs, st1)" and
    st': "st' = st1\<lparr>ctx_results := Some rs, profiler := profiler st1 @ [PrintProfilingResult],
                     ctx_clipIndex := IncrementAppCtxIfmIdx E (ctx_clipIndex st1)\<rparr>"
    by blast
  from window_loop_returns [OF wl] obtain n where
    run: "run_windows E ?buf [0 ..< n] st [] = (Inr rs, st1)" and
    has: "\<forall>i<n. HasNext ((clip_slider E ?buf)\<lparr>cursor := i\<rparr>)" and
    stop: "\<not> HasNext ((clip_slider E ?buf)\<lparr>cursor := n\<rparr>)"
    using clip_slider_cursor0 [of E ?buf] by (metis add_0)
  from run_windows_indices [OF run] have idx: "map m_inferenceNumber rs = [0 ..< n]"
    by simp
  then have len: "length rs = n"
    by (auto dest: arg_cong [where f = length])
  have pos: "\<forall>i < length rs. \<exists>sti sti'.
      run_windows E ?buf [0 ..< i] st [] = (Inr (take i rs), sti) \<and>
      window_step E ?buf (clip_window E i) i sti = (Inr (rs ! i), sti')"
    using run_windows_prefix [OF run] len by blast
  have cnt: "length rs = clip_numWindows E ?buf" if pos_stride: "0 < m_audioDataStride E"
  proof -
    from stop have "\<not> n < clip_numWindows E ?buf"
      by (simp add: HasNext_clip_slider [OF pos_stride])
    moreover have "n \<le> clip_numWindows E ?buf"
    proof (cases n)
      case 0
      then show ?thesis by simp
    next
      case (Suc m)
      with has have "HasNext ((clip_slider E ?buf)\<lparr>cursor := m\<rparr>)" by simp
      then show ?thesis using Suc by (simp add: HasNext_clip_slider [OF pos_stride])
    qed
    ultimately show ?thesis using len by simp
  qed
  from st' idx len pos cnt show ?thesis by simp
qed

lemma process_clip_returns:
  assumes "0 < m_audioDataStride E"
  shows "\<exists>r st'. process_clip E st = Some (r, st')"
  by (simp add: process_clip_total [OF assms] split: prod.splits sum.splits)

text \<open>What a clip leaves in the \<^verbatim>\<open>"results"\<close> entry of the context.\<close>

lemma process_clip_results:
  assumes "0 < m_audioDataStride E" and "process_clip E st = Some (r, st')"
  shows "case r of
           Inl f \<Rightarrow> ctx_results st' = ctx_results st
         | Inr u \<Rightarrow> (\<exists>rs. ctx_results st' = Some rs \<and>
                      length rs = clip_numWindows E (get_audio_array E (ctx_clipIndex st)))"
proof (cases r)
  case (Inl f)
  let ?buf = "get_audio_array E (ctx_clipIndex st)"
  obtain r1 st1 where rw: "run_windows E ?buf [0 ..< clip_numWindows E ?buf] st [] = (r1, st1)"
    by (cases "run_windows E ?buf [0 ..< clip_numWindows E ?buf] st []")
  with assms Inl have "st' = st1"
    by (cases r1) (simp_all add: process_clip_total)
  with run_windows_frame [OF rw] Inl show ?thesis by simp
next
  case (Inr u)
  with assms(2) have "process_clip E st = Some (Inr (), st')" by simp
  from process_clip_results_in_order [OF this] assms(1) Inr show ?thesis by auto
qed

text \<open>The failure of a stage at window \<open>k\<close>, seen from the clip and from the handler.\<close>

lemma process_clip_fail_at:
  assumes "HasNext ((clip_slider E (get_audio_array E (ctx_clipIndex st)))\<lparr>cursor := k\<rparr>)"
    and "run_windows E (get_audio_array E (ctx_clipIndex st)) [0 ..< k] st [] = (Inr rs_k, st_k)"
    and "window_step E (get_audio_array E (ctx_clipIndex st)) (clip_window E k) k st_k
           = (Inl f, st_f)"
  shows "process_clip E st = Some (Inl f, st_f)"
    and "ctx_results st_f = ctx_results st"
    and "ctx_clipIndex st_f = ctx_clipIndex st"
proof -
  let ?buf = "get_audio_array E (ctx_clipIndex st)"
  have "window_loop E ?buf ((clip_slider E ?buf)\<lparr>cursor := 0\<rparr>) st [] = Some (Inl f, st_f)"
    using assms
      window_loop_fail_at [where E = E and buf = ?buf and c = 0 and k = k and st = st
        and acc = "[]" and acc' = rs_k and st_k = st_k and f = f and st_f = st_f]
    by simp
  then have wl: "window_loop E ?buf (clip_slider E ?buf) st [] = Some (Inl f, st_f)"
    by (simp add: clip_slider_cursor0)
  from process_clip_eq [OF wl] show "process_clip E st = Some (Inl f, st_f)" by simp
  from run_windows_frame [OF assms(2)] window_step_frame [OF assms(3)]
  show "ctx_results st_f = ctx_results st" and "ctx_clipIndex st_f = ctx_clipIndex st"
    by simp_all
qed

subsection \<open>The loop over the clips and the handler\<close>

lemma clips_loop_fail:
  "process_clip E st = Some (Inl f, st') \<Longrightarrow>
     clips_loop E runAll initialClipIdx st = Some (Inl f, st')"
  by (subst clips_loop.simps) simp

lemma clips_loop_continue:
  "process_clip E st = Some (Inr (), st1) \<Longrightarrow> runAll \<Longrightarrow> ctx_clipIndex st1 \<noteq> initialClipIdx \<Longrightarrow>
     clips_loop E runAll initialClipIdx st = clips_loop E runAll initialClipIdx st1"
  by (subst clips_loop.simps) simp

lemma clips_loop_failures:
  "clips_loop E runAll initialClipIdx st = Some y \<Longrightarrow>
     \<forall>f st'. y = (Inl f, st') \<longrightarrow>
       f = WindowOutOfRange \<or> f = PreProcessFailed \<or> f = InferenceFailed \<or> f = PostProcessFailed"
proof (induction E runAll initialClipIdx st y rule: clips_loop.raw_induct [rotated 1, consumes 1])
  case (1 loop E runAll initialClipIdx st y)
  show ?case
  proof (intro allI impI)
    fix f st' assume y: "y = (Inl f, st')"
    from 1(2) obtain r st1 where pc: "process_clip E st = Some (r, st1)"
      by (cases "process_clip E st") auto
    show "f = WindowOutOfRange \<or> f = PreProcessFailed \<or> f = InferenceFailed \<or> f = PostProcessFailed"
    proof (cases r)
      case (Inl g)
      with pc 1(2) y have "f = g" by simp
      with pc Inl process_clip_failures [of E st g st1] show ?thesis by simp
    next
      case (Inr u)
      show ?thesis
      proof (cases "runAll \<and> ctx_clipIndex st1 \<noteq> initialClipIdx")
        case True
        with pc Inr 1(2) y have "loop E runAll initialClipIdx st1 = Some (Inl f, st')" by simp
        from 1(1) [OF this] show ?thesis by simp
      next
        case False
        with pc Inr 1(2) y show ?thesis by auto
      qed
    qed
  qed
qed

lemma clips_loop_results:
  "clips_loop E runAll initialClipIdx st = Some y \<Longrightarrow>
     0 < m_audioDataStride E \<longrightarrow>
       ctx_results (snd y) = ctx_results st \<or>
       (\<exists>c rs. ctx_results (snd y) = Some rs \<and>
                length rs = clip_numWindows E (get_audio_array E c))"
proof (induction E runAll initialClipIdx st y rule: clips_loop.raw_induct [rotated 1, consumes 1])
  case (1 loop E runAll initialClipIdx st y)
  show ?case
  proof
    assume pos: "0 < m_audioDataStride E"
    from 1(2) obtain r st1 where pc: "process_clip E st = Some (r, st1)"
      by (cases "process_clip E st") auto
    note res = process_clip_results [OF pos pc]
    show "ctx_results (snd y) = ctx_results st \<or>
       (\<exists>c rs. ctx_results (snd y) = Some rs \<and>
                length rs = clip_numWindows E (get_audio_array E c))"
    proof (cases r)
      case (Inl f)
      with pc 1(2) res show ?thesis by auto
    next
      case (Inr u)
      with res obtain rs where rs: "ctx_results st1 = Some rs"
        "length rs = clip_numWindows E (get_audio_array E (ctx_clipIndex st))"
        by auto
      show ?thesis
      proof (cases "runAll \<and> ctx_clipIndex st1 \<noteq> initialClipIdx")
        case True
        with pc Inr 1(2) have "loop E runAll initialClipIdx st1 = Some y" by simp
        from 1(1) [OF this] pos rs show ?thesis by auto
      next
        case False
        with pc Inr 1(2) rs show ?thesis by auto
      qed
    qed
  qed
qed

lemma handler_checks_frame:
  "handler_checks E clipIndex st = (f, st0) \<Longrightarrow>
     pipeline st0 = pipeline st \<and> profiler st0 = profiler st \<and> ctx_results st0 = ctx_results st"
  by (auto simp: handler_checks_def Let_def split: prod.splits if_splits option.splits)

lemma handler_after_checks:
  "handler_checks E clipIndex st0 = (None, st) \<Longrightarrow>
     ClassifyAudioHandler E clipIndex runAll st0 = clips_loop E runAll (ctx_clipIndex st) st"
  by (simp add: ClassifyAudioHandler_def)

lemma handler_results:
  assumes "0 < m_audioDataStride E"
    and "ClassifyAudioHandler E clipIndex runAll st = Some (r, st')"
  shows "ctx_results st' = ctx_results st \<or>
         (\<exists>c rs. ctx_results st' = Some rs \<and>
                  length rs = clip_numWindows E (get_audio_array E c))"
proof -
  obtain f st0 where hc: "handler_checks E clipIndex st = (f, st0)"
    by (cases "handler_checks E clipIndex st")
  from handler_checks_frame [OF hc] have fr: "ctx_results st0 = ctx_results st" by simp
  show ?thesis
  proof (cases f)
    case (Some g)
    with hc assms(2) fr show ?thesis by (auto simp: ClassifyAudioHandler_def)
  next
    case None
    with hc assms(2) have "clips_loop E runAll (ctx_clipIndex st0) st0 = Some (r, st')"
      by (simp add: ClassifyAudioHandler_def)
    from clips_loop_results [OF this] assms(1) fr show ?thesis by simp
  qed
qed

text \<open>
  With a positive stride, a handler call that passed its checks runs the windows of the
  clip that the context selects, in order, and goes on to the next clip only after that.
\<close>

lemma handler_first_clip:
  assumes "handler_checks E clipIndex st = (None, st0)" and "0 < m_audioDataStride E"
  shows "ClassifyAudioHandler E clipIndex runAll st =
     (case run_windows E (get_audio_array E (ctx_clipIndex st0))
             [0 ..< clip_numWindows E (get_audio_array E (ctx_clipIndex st0))] st0 [] of
        (Inl f, st1) \<Rightarrow> Some (Inl f, st1)
      | (Inr rs, st1) \<Rightarrow>
          (let st2 = st1\<lparr>ctx_results := Some rs,
                         profiler := profiler st1 @ [PrintProfilingResult],
                         ctx_clipIndex := IncrementAppCtxIfmIdx E (ctx_clipIndex st0)\<rparr>
           in if runAll \<and> ctx_clipIndex st2 \<noteq> ctx_clipIndex st0
              then clips_loop E runAll (ctx_clipIndex st0) st2
              else Some (Inr (), st2)))"
proof -
  let ?buf = "get_audio_array E (ctx_clipIndex st0)"
  obtain r st1 where rw: "run_windows E ?buf [0 ..< clip_numWindows E ?buf] st0 [] = (r, st1)"
    by (cases "run_windows E ?buf [0 ..< clip_numWindows E ?buf] st0 []")
  from run_windows_frame [OF rw] have idx: "ctx_clipIndex st1 = ctx_clipIndex st0"
    by simp
  have pc: "process_clip E st0 =
     (case r of
        Inl f \<Rightarrow> Some (Inl f, st1)
      | Inr rs \<Rightarrow> Some (Inr (),
          st1\<lparr>ctx_results := Some rs, profiler := profiler st1 @ [PrintProfilingResult],
              ctx_clipIndex := IncrementAppCtxIfmIdx E (ctx_clipIndex st0)\<rparr>))"
    using rw idx by (simp add: process_clip_total [OF assms(2)] split: sum.splits)
  have "ClassifyAudioHandler E clipIndex runAll st = clips_loop E runAll (ctx_clipIndex st0) st0"
    using assms(1) by (rule handler_after_checks)
  also have "\<dots> =
     (case r of
        Inl f \<Rightarrow> Some (Inl f, st1)
      | Inr rs \<Rightarrow>
          (let st2 = st1\<lparr>ctx_results := Some rs,
                         profiler := profiler st1 @ [PrintProfilingResult],
                         ctx_clipIndex := IncrementAppCtxIfmIdx E (ctx_clipIndex st0)\<rparr>
           in if runAll \<and> ctx_clipIndex st2 \<noteq> ctx_clipIndex st0
              then clips_loop E runAll (ctx_clipIndex st0) st2
              else Some (Inr (), st2)))"
    by (subst clips_loop.simps) (simp add: pc Let_def split: sum.splits)
  finally show ?thesis using rw by simp
qed

subsection \<open>The two configurations, evaluated\<close>

lemmas demo_defs = demo_env_def demo_app_def failing_env_def demo_model_def

lemmas eval_defs = process_clip_def window_loop.simps SlidingWindow_def HasNext_def Next_def
  Index_def window_step_def window_samples_def mkKwsResult_def PresentInferenceResult_def
  clip_slider_def clip_window_def window_at_def clip_numWindows_def numWindows_def

lemma demo_process_clip: "process_clip demo_env demo_app = Some (Inr (), demo_after_clip0)"
  by (simp add: demo_defs demo_after_clip0_def eval_defs)

subsection \<open>Failure, order and boundary cases of the handler\<close>

text \<open>
  Claim C4. When the pre-processing, the inference or the post-processing of window \<open>k\<close>
  of a clip reports failure, after the windows before it went through, the clip, the loop
  over the clips and the handler return the failure of that stage with the state right
  after it: the stages after it and the windows after \<open>k\<close> are not run, the handler does
  not return \<^verbatim>\<open>true\<close>, and the \<^verbatim>\<open>"results"\<close> entry of the context is the one from before
  the clip, so the results of the windows before \<open>k\<close> are dropped. A window goes through
  exactly when its three stages report success. A round of the loop over the clips that
  went through only hands over to the next round, so this holds for every clip of a call.
  With a positive stride, the processing of a clip ends, and it either fails and leaves
  the entry untouched or stores one result per window; and whatever the handler returns,
  the entry is either the one from before the call or a full result sequence of some clip.
\<close>

theorem C4_fail_fast:
  "(\<forall>k rs_k st_k f st_f.
      HasNext ((clip_slider E (get_audio_array E (ctx_clipIndex st)))\<lparr>cursor := k\<rparr>) \<and>
      run_windows E (get_audio_array E (ctx_clipIndex st)) [0 ..< k] st [] = (Inr rs_k, st_k) \<and>
      (let pre = PreProcess E
                   (window_samples (get_audio_array E (ctx_clipIndex st)) (clip_window E k)) k
                   (pipeline st_k);
           inf = RunInference E (snd pre);
           post = PostProcess E (snd inf)
       in \<not> fst pre \<and> f = PreProcessFailed \<and> st_f = st_k\<lparr>pipeline := snd pre\<rparr> \<or>
          fst pre \<and> \<not> fst inf \<and> f = InferenceFailed \<and>
            st_f = st_k\<lparr>pipeline := snd inf,
                        profiler := profiler st_k @ [StartProfiling ''Inference'']\<rparr> \<or>
          fst pre \<and> fst inf \<and> \<not> fst post \<and> f = PostProcessFailed \<and>
            st_f = st_k\<lparr>pipeline := snd post,
                        profiler := profiler st_k @ [StartProfiling ''Inference'', StopProfiling]\<rparr>)
      \<longrightarrow>
        process_clip E st = Some (Inl f, st_f) \<and>
        clips_loop E runAll initialClipIdx st = Some (Inl f, st_f) \<and>
        \<not> returned_true (clips_loop E runAll initialClipIdx st) \<and>
        (\<forall>clipIndex st0. handler_checks E clipIndex st0 = (None, st) \<longrightarrow>
           ClassifyAudioHandler E clipIndex runAll st0 = Some (Inl f, st_f) \<and>
           \<not> returned_true (ClassifyAudioHandler E clipIndex runAll st0)) \<and>
        ctx_results st_f = ctx_results st \<and> ctx_clipIndex st_f = ctx_clipIndex st) \<and>
   (\<forall>buf w i s.
      (\<exists>r s'. window_step E buf w i s = (Inr r, s')) \<longleftrightarrow>
        fst (PreProcess E (window_samples buf w) i (pipeline s)) \<and>
        fst (RunInference E (snd (PreProcess E (window_samples buf w) i (pipeline s)))) \<and>
        fst (PostProcess E (snd (RunInference E
               (snd (PreProcess E (window_samples buf w) i (pipeline s))))))) \<and>
   (\<forall>st1. process_clip E st = Some (Inr (), st1) \<and> runAll \<and> ctx_clipIndex st1 \<noteq> initialClipIdx
      \<longrightarrow> clips_loop E runAll initialClipIdx st = clips_loop E runAll initialClipIdx st1) \<and>
   (0 < m_audioDataStride E \<longrightarrow>
      (\<exists>r st'. process_clip E st = Some (r, st')) \<and>
      (\<forall>r st'. process_clip E st = Some (r, st') \<longrightarrow>
         (case r of
            Inl f \<Rightarrow> ctx_results st' = ctx_results st
          | Inr u \<Rightarrow> (\<exists>rs. ctx_results st' = Some rs \<and>
                length rs = clip_numWindows E (get_audio_array E (ctx_clipIndex st))))) \<and>
      (\<forall>clipIndex r st'. ClassifyAudioHandler E clipIndex runAll st = Some (r, st') \<longrightarrow>
         ctx_results st' = ctx_results st \<or>
         (\<exists>c rs. ctx_results st' = Some rs \<and>
                  length rs = clip_numWindows E (get_audio_array E c))))"
proof -
  let ?buf = "get_audio_array E (ctx_clipIndex st)"
  have fail: "process_clip E st = Some (Inl f, st_f) \<and>
        clips_loop E runAll initialClipIdx st = Some (Inl f, st_f) \<and>
        \<not> returned_true (clips_loop E runAll initialClipIdx st) \<and>
        (\<forall>clipIndex st0. handler_checks E clipIndex st0 = (None, st) \<longrightarrow>
           ClassifyAudioHandler E clipIndex runAll st0 = Some (Inl f, st_f) \<and>
           \<not> returned_true (ClassifyAudioHandler E clipIndex runAll st0)) \<and>
        ctx_results st_f = ctx_results st \<and> ctx_clipIndex st_f = ctx_clipIndex st"
    if h1: "HasNext ((clip_slider E ?buf)\<lparr>cursor := k\<rparr>)"
      and h2: "run_windows E ?buf [0 ..< k] st [] = (Inr rs_k, st_k)"
      and h3: "let pre = PreProcess E (window_samples ?buf (clip_window E k)) k (pipeline st_k);
           inf = RunInference E (snd pre);
           post = PostProcess E (snd inf)
       in \<not> fst pre \<and> f = PreProcessFailed \<and> st_f = st_k\<lparr>pipeline := snd pre\<rparr> \<or>
          fst pre \<and> \<not> fst inf \<and> f = InferenceFailed \<and>
            st_f = st_k\<lparr>pipeline := snd inf,
                        profiler := profiler st_k @ [StartProfiling ''Inference'']\<rparr> \<or>
          fst pre \<and> fst inf \<and> \<not> fst post \<and> f = PostProcessFailed \<and>
            st_f = st_k\<lparr>pipeline := snd post,
                        profiler := profiler st_k @ [StartProfiling ''Inference'', StopProfiling]\<rparr>"
    for k rs_k st_k f st_f
  proof -
    have step: "window_step E ?buf (clip_window E k) k st_k = (Inl f, st_f)"
      using h3
        window_step_PreProcess_fails [of E ?buf "clip_window E k" k st_k]
        window_step_RunInference_fails [of E ?buf "clip_window E k" k st_k]
        window_step_PostProcess_fails [of E ?buf "clip_window E k" k st_k]
      by (auto simp: Let_def)
    note pc = process_clip_fail_at [OF h1 h2 step]
    have cl: "clips_loop E ra ini st = Some (Inl f, st_f)" for ra ini
      using pc(1) by (rule clips_loop_fail)
    have "ClassifyAudioHandler E clipIndex runAll st0 = Some (Inl f, st_f) \<and>
        \<not> returned_true (ClassifyAudioHandler E clipIndex runAll st0)"
      if "handler_checks E clipIndex st0 = (None, st)" for clipIndex st0
      using handler_after_checks [OF that] cl by (simp add: returned_true_def)
    with pc cl show ?thesis by (simp add: returned_true_def)
  qed
  have part1: "\<forall>k rs_k st_k f st_f.
      HasNext ((clip_slider E ?buf)\<lparr>cursor := k\<rparr>) \<and>
      run_windows E ?buf [0 ..< k] st [] = (Inr rs_k, st_k) \<and>
      (let pre = PreProcess E (window_samples ?buf (clip_window E k)) k (pipeline st_k);
           inf = RunInference E (snd pre);
           post = PostProcess E (snd inf)
       in \<not> fst pre \<and> f = PreProcessFailed \<and> st_f = st_k\<lparr>pipeline := snd pre\<rparr> \<or>
          fst pre \<and> \<not> fst inf \<and> f = InferenceFailed \<and>
            st_f = st_k\<lparr>pipeline := snd inf,
                        profiler := profiler st_k @ [StartProfiling ''Inference'']\<rparr> \<or>
          fst pre \<and> fst inf \<and> \<not> fst post \<and> f = PostProcessFailed \<and>
            st_f = st_k\<lparr>pipeline := snd post,
                        profiler := profiler st_k @ [StartProfiling ''Inference'', StopProfiling]\<rparr>)
      \<longrightarrow>
        process_clip E st = Some (Inl f, st_f) \<and>
        clips_loop E runAll initialClipIdx st = Some (Inl f, st_f) \<and>
        \<not> returned_true (clips_loop E runAll initialClipIdx st) \<and>
        (\<forall>clipIndex st0. handler_checks E clipIndex st0 = (None, st) \<longrightarrow>
           ClassifyAudioHandler E clipIndex runAll st0 = Some (Inl f, st_f) \<and>
           \<not> returned_true (ClassifyAudioHandler E clipIndex runAll st0)) \<and>
        ctx_results st_f = ctx_results st \<and> ctx_clipIndex st_f = ctx_clipIndex st"
  proof (intro allI impI, elim conjE)
    fix k rs_k st_k f st_f
    assume "HasNext ((clip_slider E ?buf)\<lparr>cursor := k\<rparr>)"
      and "run_windows E ?buf [0 ..< k] st [] = (Inr rs_k, st_k)"
      and "let pre = PreProcess E (window_samples ?buf (clip_window E k)) k (pipeline st_k);
           inf = RunInference E (snd pre);
           post = PostProcess E (snd inf)
       in \<not> fst pre \<and> f = PreProcessFailed \<and> st_f = st_k\<lparr>pipeline := snd pre\<rparr> \<or>
          fst pre \<and> \<not> fst inf \<and> f = InferenceFailed \<and>
            st_f = st_k\<lparr>pipeline := snd inf,
                        profiler := profiler st_k @ [StartProfiling ''Inference'']\<rparr> \<or>
          fst pre \<and> fst inf \<and> \<not> fst post \<and> f = PostProcessFailed \<and>
            st_f = st_k\<lparr>pipeline := snd post,
                        profiler := profiler st_k @ [StartProfiling ''Inference'', StopProfiling]\<rparr>"
    then show "process_clip E st = Some (Inl f, st_f) \<and>
        clips_loop E runAll initialClipIdx st = Some (Inl f, st_f) \<and>
        \<not> returned_true (clips_loop E runAll initialClipIdx st) \<and>
        (\<forall>clipIndex st0. handler_checks E clipIndex st0 = (None, st) \<longrightarrow>
           ClassifyAudioHandler E clipIndex runAll st0 = Some (Inl f, st_f) \<and>
           \<not> returned_true (ClassifyAudioHandler E clipIndex runAll st0)) \<and>
        ctx_results st_f = ctx_results st \<and> ctx_clipIndex st_f = ctx_clipIndex st"
      by (rule fail)
  qed
  have part2: "\<forall>buf w i s.
      (\<exists>r s'. window_step E buf w i s = (Inr r, s')) \<longleftrightarrow>
        fst (PreProcess E (window_samples buf w) i (pipeline s)) \<and>
        fst (RunInference E (snd (PreProcess E (window_samples buf w) i (pipeline s)))) \<and>
        fst (PostProcess E (snd (RunInference E
               (snd (PreProcess E (window_samples buf w) i (pipeline s))))))"
    by (intro allI) (rule window_step_goes_through_iff)
  have part3: "\<forall>st1. process_clip E st = Some (Inr (), st1) \<and> runAll \<and>
      ctx_clipIndex st1 \<noteq> initialClipIdx
      \<longrightarrow> clips_loop E runAll initialClipIdx st = clips_loop E runAll initialClipIdx st1"
    by (simp add: clips_loop_continue)
  have part4: "0 < m_audioDataStride E \<longrightarrow>
      (\<exists>r st'. process_clip E st = Some (r, st')) \<and>
      (\<forall>r st'. process_clip E st = Some (r, st') \<longrightarrow>
         (case r of
            Inl f \<Rightarrow> ctx_results st' = ctx_results st
          | Inr u \<Rightarrow> (\<exists>rs. ctx_results st' = Some rs \<and>
                length rs = clip_numWindows E ?buf))) \<and>
      (\<forall>clipIndex r st'. ClassifyAudioHandler E clipIndex runAll st = Some (r, st') \<longrightarrow>
         ctx_results st' = ctx_results st \<or>
         (\<exists>c rs. ctx_results st' = Some rs \<and>
                  length rs = clip_numWindows E (get_audio_array E c)))"
  proof (intro impI conjI allI)
    assume "0 < m_audioDataStride E"
    then show "\<exists>r st'. process_clip E st = Some (r, st')" by (rule process_clip_returns)
  next
    fix r st'
    assume "0 < m_audioDataStride E" and "process_clip E st = Some (r, st')"
    then show "case r of
            Inl f \<Rightarrow> ctx_results st' = ctx_results st
          | Inr u \<Rightarrow> (\<exists>rs. ctx_results st' = Some rs \<and>
                length rs = clip_numWindows E ?buf)"
      by (rule process_clip_results)
  next
    fix clipIndex r st'
    assume "0 < m_audioDataStride E"
      and "ClassifyAudioHandler E clipIndex runAll st = Some (r, st')"
    then show "ctx_results st' = ctx_results st \<or>
         (\<exists>c rs. ctx_results st' = Some rs \<and>
                  length rs = clip_numWindows E (get_audio_array E c))"
      by (rule handler_results)
  qed
  show ?thesis
    apply (rule conjI)
     apply (rule part1)
    apply (rule conjI)
     apply (rule part2)
    apply (rule conjI)
     apply (rule part3)
    apply (rule part4)
    done
qed



theorem C4_fail_fast_witness:
  "HasNext ((clip_slider failing_env (get_audio_array failing_env 0))\<lparr>cursor := 1\<rparr>) \<and>
   fst (PreProcess failing_env
          (window_samples (get_audio_array failing_env 0) (clip_window failing_env 1)) 1
          (\<lparr>m_inited = True\<rparr>, 1)) \<and>
   \<not> fst (RunInference failing_env (\<lparr>m_inited = True\<rparr>, 1)) \<and>
   ClassifyAudioHandler failing_env 0 True demo_app = Some (Inl InferenceFailed, failing_after_window1) \<and>
   \<not> returned_true (ClassifyAudioHandler failing_env 0 True demo_app) \<and>
   ctx_results failing_after_window1 = ctx_results demo_app \<and>
   0 < m_audioDataStride demo_env \<and>
   process_clip demo_env demo_app = Some (Inr (), demo_after_clip0) \<and>
   (\<exists>rs. ctx_results demo_after_clip0 = Some rs \<and> length rs = 3)"
proof -
  let ?buf = "get_audio_array failing_env (ctx_clipIndex demo_app)"
  let ?r0 = "\<lparr>m_resultVec = [1::nat], m_timeStamp = 0::rat, m_inferenceNumber = 0,
               m_threshold = 7 / 10\<rparr>"
  let ?st1 = "demo_app\<lparr>pipeline := (\<lparr>m_inited = True\<rparr>, 1),
               profiler := [StartProfiling ''Inference'', StopProfiling]\<rparr>"
  have hn: "HasNext ((clip_slider failing_env ?buf)\<lparr>cursor := 1\<rparr>)"
    by (simp add: demo_defs eval_defs)
  have run: "run_windows failing_env ?buf [0 ..< 1] demo_app [] = (Inr [?r0], ?st1)"
    by (simp add: demo_defs eval_defs)
  have pre: "fst (PreProcess failing_env (window_samples ?buf (clip_window failing_env 1)) 1
      (pipeline ?st1))"
    by (simp add: demo_defs)
  have inf: "\<not> fst (RunInference failing_env (snd (PreProcess failing_env
      (window_samples ?buf (clip_window failing_env 1)) 1 (pipeline ?st1))))"
    by (simp add: demo_defs)
  have stf: "failing_after_window1 =
      ?st1\<lparr>pipeline := snd (RunInference failing_env (snd (PreProcess failing_env
               (window_samples ?buf (clip_window failing_env 1)) 1 (pipeline ?st1)))),
           profiler := profiler ?st1 @ [StartProfiling ''Inference'']\<rparr>"
    by (simp add: demo_defs failing_after_window1_def)
  have stage: "let pre = PreProcess failing_env (window_samples ?buf (clip_window failing_env 1)) 1
                   (pipeline ?st1);
           inf = RunInference failing_env (snd pre);
           post = PostProcess failing_env (snd inf)
       in \<not> fst pre \<and> InferenceFailed = PreProcessFailed \<and>
            failing_after_window1 = ?st1\<lparr>pipeline := snd pre\<rparr> \<or>
          fst pre \<and> \<not> fst inf \<and> InferenceFailed = InferenceFailed \<and>
            failing_after_window1 = ?st1\<lparr>pipeline := snd inf,
                        profiler := profiler ?st1 @ [StartProfiling ''Inference'']\<rparr> \<or>
          fst pre \<and> fst inf \<and> \<not> fst post \<and> InferenceFailed = PostProcessFailed \<and>
            failing_after_window1 = ?st1\<lparr>pipeline := snd post,
                        profiler := profiler ?st1 @ [StartProfiling ''Inference'', StopProfiling]\<rparr>"
    unfolding Let_def by (rule disjI2, rule disjI1, intro conjI pre inf refl stf)
  have checks: "handler_checks failing_env 0 demo_app = (None, demo_app)"
    by (simp add: handler_checks_def minTensorDims_def demo_defs)
  have pos: "0 < m_audioDataStride demo_env" by (simp add: demo_defs)
  note C4 = C4_fail_fast [of failing_env demo_app True 0, THEN conjunct1, rule_format,
    of 1 "[?r0]" ?st1 InferenceFailed failing_after_window1]
  note C4b = C4 [OF conjI [OF hn conjI [OF run stage]]]
  have block: "(\<forall>clipIndex st0. handler_checks failing_env clipIndex st0 = (None, demo_app) \<longrightarrow>
           ClassifyAudioHandler failing_env clipIndex True st0
             = Some (Inl InferenceFailed, failing_after_window1) \<and>
           \<not> returned_true (ClassifyAudioHandler failing_env clipIndex True st0))"
    and keep: "ctx_results failing_after_window1 = ctx_results demo_app"
    using C4b by blast+
  from block [rule_format, OF checks]
  have fail: "ClassifyAudioHandler failing_env 0 True demo_app =
      Some (Inl InferenceFailed, failing_after_window1)"
    and notrue: "\<not> returned_true (ClassifyAudioHandler failing_env 0 True demo_app)"
    by blast+
  note C4d = C4_fail_fast [of demo_env demo_app True 0, THEN conjunct2, THEN conjunct2, THEN conjunct2,
    rule_format, OF pos]
  from C4d have "\<forall>r st'. process_clip demo_env demo_app = Some (r, st') \<longrightarrow>
         (case r of
            Inl f \<Rightarrow> ctx_results st' = ctx_results demo_app
          | Inr u \<Rightarrow> (\<exists>rs. ctx_results st' = Some rs \<and>
                length rs = clip_numWindows demo_env
                  (get_audio_array demo_env (ctx_clipIndex demo_app))))"
    by (elim conjE)
  from this [rule_format, OF demo_process_clip]
  have "\<exists>rs. ctx_results demo_after_clip0 = Some rs \<and>
      length rs = clip_numWindows demo_env (get_audio_array demo_env (ctx_clipIndex demo_app))"
    by simp
  then have three: "\<exists>rs. ctx_results demo_after_clip0 = Some rs \<and> length rs = 3"
    by (simp add: demo_defs clip_numWindows_def numWindows_def)
  have hn0: "HasNext ((clip_slider failing_env (get_audio_array failing_env 0))\<lparr>cursor := 1\<rparr>)"
    by (simp add: demo_defs eval_defs)
  have pre0: "fst (PreProcess failing_env
          (window_samples (get_audio_array failing_env 0) (clip_window failing_env 1)) 1
          (\<lparr>m_inited = True\<rparr>, 1))"
    by (simp add: demo_defs)
  have inf0: "\<not> fst (RunInference failing_env (\<lparr>m_inited = True\<rparr>, 1))"
    by (simp add: demo_defs)
  from hn0 pre0 inf0 fail notrue keep pos demo_process_clip three show ?thesis
    by (intro conjI)
qed

text \<open>
  Claim C7. After a clip was processed without failure the context holds its results, and
  the result at position \<open>i\<close> has inference index \<open>i\<close>: it is the record that the step of
  window \<open>i\<close> produced, in the state reached after windows \<open>0 .. i-1\<close> had produced the
  results before it. With a positive stride there is one result per window of the clip,
  so none is dropped, repeated or moved.
\<close>

theorem C7_results_in_traversal_order:
  assumes "process_clip E st = Some (Inr (), st')"
  shows "\<exists>rs. ctx_results st' = Some rs \<and>
           map m_inferenceNumber rs = [0 ..< length rs] \<and>
           (\<forall>i < length rs. \<exists>sti sti'.
              run_windows E (get_audio_array E (ctx_clipIndex st)) [0 ..< i] st []
                = (Inr (take i rs), sti) \<and>
              window_step E (get_audio_array E (ctx_clipIndex st)) (clip_window E i) i sti
                = (Inr (rs ! i), sti')) \<and>
           (0 < m_audioDataStride E \<longrightarrow>
              length rs = clip_numWindows E (get_audio_array E (ctx_clipIndex st)))"
  using assms by (rule process_clip_results_in_order)

theorem C7_results_in_traversal_order_witness:
  "process_clip demo_env demo_app = Some (Inr (), demo_after_clip0) \<and>
   (\<exists>rs. ctx_results demo_after_clip0 = Some rs \<and> map m_inferenceNumber rs = [0, 1, 2] \<and>
      length rs = clip_numWindows demo_env (get_audio_array demo_env 0))"
proof -
  from C7_results_in_traversal_order [OF demo_process_clip] obtain rs where
    rs: "ctx_results demo_after_clip0 = Some rs"
      "map m_inferenceNumber rs = [0 ..< length rs]"
      "0 < m_audioDataStride demo_env \<longrightarrow>
         length rs = clip_numWindows demo_env (get_audio_array demo_env (ctx_clipIndex demo_app))"
    by (elim exE conjE)
  have "0 < m_audioDataStride demo_env" by (simp add: demo_defs)
  with rs(3) have "length rs = clip_numWindows demo_env (get_audio_array demo_env (ctx_clipIndex demo_app))"
    by (rule mp)
  then have len: "length rs = clip_numWindows demo_env (get_audio_array demo_env 0)"
    by (simp add: demo_app_def)
  have "clip_numWindows demo_env (get_audio_array demo_env 0) = 3"
    by (simp add: demo_defs clip_numWindows_def numWindows_def)
  with len have "length rs = 3" by simp
  moreover have "[0 ..< 3] = [0, 1, 2::nat]" by code_simp
  ultimately have "map m_inferenceNumber rs = [0, 1, 2]"
    using rs(2) by simp
  with rs(1) len demo_process_clip show ?thesis by (intro conjI exI [of _ rs])
qed

text \<open>
  Claim C8. When the clip selected by the context is shorter than a window, the traversal
  hands out no window, the clip is processed without any failure, and the context holds an
  empty result sequence afterwards; a handler call for that one clip (\<^verbatim>\<open>runAll\<close> false, the
  checks of lines 53-80 passed) returns \<^verbatim>\<open>true\<close> with that state.
\<close>

theorem C8_short_buffer:
  assumes "length (get_audio_array E (ctx_clipIndex st)) < m_audioDataWindowSize E"
  shows "traverse (clip_slider E (get_audio_array E (ctx_clipIndex st))) [] = Some (Inr []) \<and>
    process_clip E st =
      Some (Inr (), st\<lparr>ctx_results := Some [],
                       profiler := profiler st @ [PrintProfilingResult],
                       ctx_clipIndex := IncrementAppCtxIfmIdx E (ctx_clipIndex st)\<rparr>) \<and>
    clips_loop E False initialClipIdx st =
      Some (Inr (), st\<lparr>ctx_results := Some [],
                       profiler := profiler st @ [PrintProfilingResult],
                       ctx_clipIndex := IncrementAppCtxIfmIdx E (ctx_clipIndex st)\<rparr>) \<and>
    (\<forall>clipIndex st0. handler_checks E clipIndex st0 = (None, st) \<longrightarrow>
       ClassifyAudioHandler E clipIndex False st0 =
         Some (Inr (), st\<lparr>ctx_results := Some [],
                          profiler := profiler st @ [PrintProfilingResult],
                          ctx_clipIndex := IncrementAppCtxIfmIdx E (ctx_clipIndex st)\<rparr>) \<and>
       returned_true (ClassifyAudioHandler E clipIndex False st0))"
proof -
  let ?buf = "get_audio_array E (ctx_clipIndex st)"
  let ?st' = "st\<lparr>ctx_results := Some [], profiler := profiler st @ [PrintProfilingResult],
                 ctx_clipIndex := IncrementAppCtxIfmIdx E (ctx_clipIndex st)\<rparr>"
  have no: "\<not> HasNext (clip_slider E ?buf)"
    using assms by (rule short_buffer_no_window)
  then have tr: "traverse (clip_slider E ?buf) [] = Some (Inr [])"
    by (subst traverse.simps) simp
  have "window_loop E ?buf (clip_slider E ?buf) st [] = Some (Inr [], st)"
    using no by (rule window_loop_stop)
  from process_clip_eq [OF this] have pc: "process_clip E st = Some (Inr (), ?st')"
    by simp
  then have cl: "clips_loop E False initialClipIdx st = Some (Inr (), ?st')"
    by (subst clips_loop.simps) simp
  have "ClassifyAudioHandler E clipIndex False st0 = Some (Inr (), ?st') \<and>
      returned_true (ClassifyAudioHandler E clipIndex False st0)"
    if "handler_checks E clipIndex st0 = (None, st)" for clipIndex st0
    using that pc
    by (simp add: ClassifyAudioHandler_def clips_loop.simps [of E False] returned_true_def)
  with tr pc cl show ?thesis by blast
qed

theorem C8_short_buffer_witness:
  "length (get_audio_array demo_env 1) < m_audioDataWindowSize demo_env \<and>
   ClassifyAudioHandler demo_env 1 False demo_app =
     Some (Inr (), demo_app\<lparr>ctx_results := Some [], profiler := [PrintProfilingResult],
                             ctx_clipIndex := 0\<rparr>)"
proof -
  let ?st = "demo_app\<lparr>ctx_clipIndex := 1\<rparr>"
  have short: "length (get_audio_array demo_env (ctx_clipIndex ?st)) < m_audioDataWindowSize demo_env"
    by (simp add: demo_defs)
  have checks: "handler_checks demo_env 1 demo_app = (None, ?st)"
    by (simp add: handler_checks_def minTensorDims_def demo_defs)
  from C8_short_buffer [OF short, of 0] checks
  have "ClassifyAudioHandler demo_env 1 False demo_app =
      Some (Inr (), ?st\<lparr>ctx_results := Some [],
                        profiler := profiler ?st @ [PrintProfilingResult],
                        ctx_clipIndex := IncrementAppCtxIfmIdx demo_env (ctx_clipIndex ?st)\<rparr>)"
    by blast
  then show ?thesis by (simp add: demo_defs)
qed




text \<open>
  Claim C10. A clip index that is not below \<^verbatim>\<open>NUMBER_OF_FILES\<close> is not stored and is no
  reason to fail: the checks do not consult the context helper and leave the state as it
  is, the handler never takes the exit of line 56, and once the model checks pass the
  handler is the loop over the clips started at the clip index the context already holds.
  With a positive stride it runs the windows of the clip stored under that index, in
  order, on the state of the call: a failing window is the result of the handler, and
  when all windows went through, a call for one clip returns \<^verbatim>\<open>true\<close> with the results of
  exactly these windows in the context, and a call for all clips goes on with the next
  clip.
\<close>

theorem C10_out_of_range_clip_index:
  assumes "NUMBER_OF_FILES E \<le> clipIndex"
  shows "handler_checks (E\<lparr>SetAppCtxIfmIdx := setIdx\<rparr>) clipIndex st = handler_checks E clipIndex st \<and>
         (\<forall>f st0. handler_checks E clipIndex st = (f, st0) \<longrightarrow> st0 = st) \<and>
         (\<forall>f st'. ClassifyAudioHandler E clipIndex runAll st = Some (Inl f, st') \<longrightarrow>
            f \<noteq> SetClipIndexFailed) \<and>
         (IsInited E (pipeline st) \<longrightarrow>
          (\<exists>dimsSize. inputTensorDims E (pipeline st) = Some dimsSize \<and> minTensorDims E \<le> dimsSize) \<longrightarrow>
            ClassifyAudioHandler E clipIndex runAll st = clips_loop E runAll (ctx_clipIndex st) st \<and>
            (\<forall>st'. process_clip E st = Some (Inr (), st') \<longrightarrow>
               ClassifyAudioHandler E clipIndex False st = Some (Inr (), st')) \<and>
            (0 < m_audioDataStride E \<longrightarrow>
               ClassifyAudioHandler E clipIndex runAll st =
                 (case run_windows E (get_audio_array E (ctx_clipIndex st))
                         [0 ..< clip_numWindows E (get_audio_array E (ctx_clipIndex st))] st [] of
                    (Inl f, st1) \<Rightarrow> Some (Inl f, st1)
                  | (Inr rs, st1) \<Rightarrow>
                      (let st2 = st1\<lparr>ctx_results := Some rs,
                                     profiler := profiler st1 @ [PrintProfilingResult],
                                     ctx_clipIndex := IncrementAppCtxIfmIdx E (ctx_clipIndex st)\<rparr>
                       in if runAll \<and> ctx_clipIndex st2 \<noteq> ctx_clipIndex st
                          then clips_loop E runAll (ctx_clipIndex st) st2
                          else Some (Inr (), st2))) \<and>
               (\<forall>rs st1.
                  run_windows E (get_audio_array E (ctx_clipIndex st))
                    [0 ..< clip_numWindows E (get_audio_array E (ctx_clipIndex st))] st []
                    = (Inr rs, st1) \<longrightarrow>
                  ClassifyAudioHandler E clipIndex False st =
                    Some (Inr (), st1\<lparr>ctx_results := Some rs,
                                      profiler := profiler st1 @ [PrintProfilingResult],
                                      ctx_clipIndex := IncrementAppCtxIfmIdx E (ctx_clipIndex st)\<rparr>) \<and>
                  returned_true (ClassifyAudioHandler E clipIndex False st) \<and>
                  map m_inferenceNumber rs
                    = [0 ..< clip_numWindows E (get_audio_array E (ctx_clipIndex st))])))"
proof -
  let ?buf = "get_audio_array E (ctx_clipIndex st)"
  from assms have nlt: "\<not> clipIndex < NUMBER_OF_FILES E" by simp
  have indep: "handler_checks (E\<lparr>SetAppCtxIfmIdx := setIdx\<rparr>) clipIndex st = handler_checks E clipIndex st"
    using nlt by (simp add: handler_checks_def minTensorDims_def split: option.splits)
  have same: "st0 = st" if "handler_checks E clipIndex st = (f, st0)" for f st0
    using that nlt by (auto simp: handler_checks_def split: if_splits option.splits)
  have exits: "f \<noteq> SetClipIndexFailed"
    if h: "ClassifyAudioHandler E clipIndex runAll st = Some (Inl f, st')" for f st'
  proof (cases "fst (handler_checks E clipIndex st)")
    case None
    then have "handler_checks E clipIndex st = (None, st)"
      using same [of None "snd (handler_checks E clipIndex st)"]
      by (cases "handler_checks E clipIndex st") auto
    with h have "clips_loop E runAll (ctx_clipIndex st) st = Some (Inl f, st')"
      by (simp add: ClassifyAudioHandler_def)
    from clips_loop_failures [OF this] show ?thesis by auto
  next
    case (Some g)
    then obtain st0 where hc: "handler_checks E clipIndex st = (Some g, st0)"
      by (cases "handler_checks E clipIndex st") auto
    with h have "f = g" by (simp add: ClassifyAudioHandler_def)
    moreover from hc nlt have "g \<noteq> SetClipIndexFailed"
      by (auto simp: handler_checks_def split: if_splits option.splits)
    ultimately show ?thesis by simp
  qed
  have run: "ClassifyAudioHandler E clipIndex runAll st = clips_loop E runAll (ctx_clipIndex st) st \<and>
            (\<forall>st'. process_clip E st = Some (Inr (), st') \<longrightarrow>
               ClassifyAudioHandler E clipIndex False st = Some (Inr (), st')) \<and>
            (0 < m_audioDataStride E \<longrightarrow>
               ClassifyAudioHandler E clipIndex runAll st =
                 (case run_windows E ?buf [0 ..< clip_numWindows E ?buf] st [] of
                    (Inl f, st1) \<Rightarrow> Some (Inl f, st1)
                  | (Inr rs, st1) \<Rightarrow>
                      (let st2 = st1\<lparr>ctx_results := Some rs,
                                     profiler := profiler st1 @ [PrintProfilingResult],
                                     ctx_clipIndex := IncrementAppCtxIfmIdx E (ctx_clipIndex st)\<rparr>
                       in if runAll \<and> ctx_clipIndex st2 \<noteq> ctx_clipIndex st
                          then clips_loop E runAll (ctx_clipIndex st) st2
                          else Some (Inr (), st2))) \<and>
               (\<forall>rs st1.
                  run_windows E ?buf [0 ..< clip_numWindows E ?buf] st [] = (Inr rs, st1) \<longrightarrow>
                  ClassifyAudioHandler E clipIndex False st =
                    Some (Inr (), st1\<lparr>ctx_results := Some rs,
                                      profiler := profiler st1 @ [PrintProfilingResult],
                                      ctx_clipIndex := IncrementAppCtxIfmIdx E (ctx_clipIndex st)\<rparr>) \<and>
                  returned_true (ClassifyAudioHandler E clipIndex False st) \<and>
                  map m_inferenceNumber rs = [0 ..< clip_numWindows E ?buf]))"
    if "IsInited E (pipeline st)"
      and "\<exists>dimsSize. inputTensorDims E (pipeline st) = Some dimsSize \<and> minTensorDims E \<le> dimsSize"
  proof -
    from that nlt have hc: "handler_checks E clipIndex st = (None, st)"
      by (auto simp: handler_checks_def)
    then have eq: "ClassifyAudioHandler E clipIndex ra st = clips_loop E ra (ctx_clipIndex st) st" for ra
      by (simp add: ClassifyAudioHandler_def)
    have one: "ClassifyAudioHandler E clipIndex False st = Some (Inr (), st')"
      if "process_clip E st = Some (Inr (), st')" for st'
      using that by (simp add: eq clips_loop.simps [of E False])
    have windows: "ClassifyAudioHandler E clipIndex ra st =
         (case run_windows E ?buf [0 ..< clip_numWindows E ?buf] st [] of
            (Inl f, st1) \<Rightarrow> Some (Inl f, st1)
          | (Inr rs, st1) \<Rightarrow>
              (let st2 = st1\<lparr>ctx_results := Some rs,
                             profiler := profiler st1 @ [PrintProfilingResult],
                             ctx_clipIndex := IncrementAppCtxIfmIdx E (ctx_clipIndex st)\<rparr>
               in if ra \<and> ctx_clipIndex st2 \<noteq> ctx_clipIndex st
                  then clips_loop E ra (ctx_clipIndex st) st2
                  else Some (Inr (), st2)))"
      if "0 < m_audioDataStride E" for ra
      using hc that by (rule handler_first_clip)
    have through: "ClassifyAudioHandler E clipIndex False st =
            Some (Inr (), st1\<lparr>ctx_results := Some rs,
                              profiler := profiler st1 @ [PrintProfilingResult],
                              ctx_clipIndex := IncrementAppCtxIfmIdx E (ctx_clipIndex st)\<rparr>) \<and>
          returned_true (ClassifyAudioHandler E clipIndex False st) \<and>
          map m_inferenceNumber rs = [0 ..< clip_numWindows E ?buf]"
      if pos: "0 < m_audioDataStride E"
        and rw: "run_windows E ?buf [0 ..< clip_numWindows E ?buf] st [] = (Inr rs, st1)"
      for rs st1
    proof -
      from run_windows_indices [OF rw]
      have "map m_inferenceNumber rs = [0 ..< clip_numWindows E ?buf]" by simp
      then show ?thesis
        using rw by (simp add: windows [OF pos] returned_true_def)
    qed
    from eq one windows through show ?thesis by blast
  qed
  from indep same exits run show ?thesis by blast
qed

theorem C10_out_of_range_clip_index_witness:
  "NUMBER_OF_FILES demo_env \<le> 5 \<and>
   IsInited demo_env (pipeline demo_app) \<and>
   0 < m_audioDataStride demo_env \<and>
   ctx_clipIndex demo_app = 0 \<and>
   clip_numWindows demo_env (get_audio_array demo_env 0) = 3 \<and>
   ClassifyAudioHandler demo_env 5 False demo_app = Some (Inr (), demo_after_clip0) \<and>
   returned_true (ClassifyAudioHandler demo_env 5 False demo_app)"
proof -
  let ?buf = "get_audio_array demo_env (ctx_clipIndex demo_app)"
  let ?rs = "[\<lparr>m_resultVec = [1::nat], m_timeStamp = 0::rat, m_inferenceNumber = 0,
                m_threshold = 7 / 10\<rparr>,
              \<lparr>m_resultVec = [2], m_timeStamp = 3 / 16000, m_inferenceNumber = 1,
                m_threshold = 7 / 10\<rparr>,
              \<lparr>m_resultVec = [3], m_timeStamp = 3 / 8000, m_inferenceNumber = 2,
                m_threshold = 7 / 10\<rparr>]"
  let ?st1 = "demo_app\<lparr>pipeline := (\<lparr>m_inited = True\<rparr>, 3),
      profiler := [StartProfiling ''Inference'', StopProfiling, StartProfiling ''Inference'',
         StopProfiling, StartProfiling ''Inference'', StopProfiling]\<rparr>"
  have le: "NUMBER_OF_FILES demo_env \<le> 5" by (simp add: demo_defs)
  have inited: "IsInited demo_env (pipeline demo_app)" by (simp add: demo_defs)
  have dims: "\<exists>dimsSize. inputTensorDims demo_env (pipeline demo_app) = Some dimsSize \<and>
      minTensorDims demo_env \<le> dimsSize"
    by (simp add: demo_defs minTensorDims_def)
  have pos: "0 < m_audioDataStride demo_env" by (simp add: demo_defs)
  have idx: "ctx_clipIndex demo_app = 0" by (simp add: demo_defs)
  have n: "clip_numWindows demo_env ?buf = 3"
    by (simp add: demo_defs clip_numWindows_def numWindows_def)
  have upt: "[0 ..< 3] = [0, 1, 2::nat]" by code_simp
  have rw: "run_windows demo_env ?buf [0 ..< clip_numWindows demo_env ?buf] demo_app []
      = (Inr ?rs, ?st1)"
    unfolding n upt
    by (simp add: demo_defs window_step_def window_samples_def mkKwsResult_def clip_window_def
        window_at_def)
  note C10 = C10_out_of_range_clip_index [OF le, of "\<lambda>cur idx. (False, idx)" demo_app False,
      THEN conjunct2, THEN conjunct2, THEN conjunct2, rule_format, OF inited dims,
      THEN conjunct2, THEN conjunct2, rule_format, OF pos, THEN conjunct2, rule_format, OF rw]
  from C10 have "ClassifyAudioHandler demo_env 5 False demo_app =
      Some (Inr (), ?st1\<lparr>ctx_results := Some ?rs,
                        profiler := profiler ?st1 @ [PrintProfilingResult],
                        ctx_clipIndex := IncrementAppCtxIfmIdx demo_env (ctx_clipIndex demo_app)\<rparr>)"
    and true: "returned_true (ClassifyAudioHandler demo_env 5 False demo_app)"
    by blast+
  then have "ClassifyAudioHandler demo_env 5 False demo_app = Some (Inr (), demo_after_clip0)"
    by (simp add: demo_defs demo_after_clip0_def)
  with le inited pos idx n true show ?thesis
    by (simp add: idx)
qed

subsection \<open>Time stamps in single precision\<close>

lemma time_stamp_binary32:
  "time_stamp (binary32 f B) i =
     fl32 (fl32 (fl32 (of_nat i) * fl32 (fl64 (1 / fl64 (of_nat f))))
           * fl32 (of_nat (m_audioDataStride B)))"
  by (simp add: time_stamp_def binary32_def)

text \<open>\<^verbatim>\<open>secondsPerSample\<close> at 16000 Hz is not \<open>1 / 16000\<close>, which no binary format holds.\<close>

lemma secondsPerSample_16000: "fl32 (fl64 (1 / fl64 16000)) = 8589935 / 137438953472"
  by code_simp

lemma one_second_time_stamps:
  "fl32 (fl32 (fl32 0 * (8589935 / 137438953472)) * fl32 16000) = 0"
  "fl32 (fl32 (fl32 1 * (8589935 / 137438953472)) * fl32 16000) = 1"
  "fl32 (fl32 (fl32 2 * (8589935 / 137438953472)) * fl32 16000) = 2"
  "fl32 (fl32 (fl32 3 * (8589935 / 137438953472)) * fl32 16000) = 3"
  "fl32 (fl32 (fl32 4 * (8589935 / 137438953472)) * fl32 16000) = 4"
  "fl32 (fl32 (fl32 5 * (8589935 / 137438953472)) * fl32 16000) = 5 + 1 / 2097152"
  by code_simp+

lemma time_stamp_one_second:
  assumes "m_audioDataStride B = 16000"
  shows "time_stamp (binary32 16000 B) 0 = 0"
    and "time_stamp (binary32 16000 B) 1 = 1"
    and "time_stamp (binary32 16000 B) 2 = 2"
    and "time_stamp (binary32 16000 B) 3 = 3"
    and "time_stamp (binary32 16000 B) 4 = 4"
    and "time_stamp (binary32 16000 B) 5 = 5 + 1 / 2097152"
  using assms one_second_time_stamps
  by (simp_all add: time_stamp_binary32 secondsPerSample_16000)

subsection \<open>The configuration with windows of one second, evaluated\<close>

lemma one_second_stride: "m_audioDataStride (one_second_env n) = 16000"
  and one_second_window: "m_audioDataWindowSize (one_second_env n) = 16000"
  and one_second_clip: "get_audio_array (one_second_env n) c = replicate n 0"
  by (simp_all add: one_second_env_def binary32_def)

lemma one_second_time_stamp:
  "time_stamp (one_second_env n) 0 = 0"
  "time_stamp (one_second_env n) 1 = 1"
  "time_stamp (one_second_env n) 2 = 2"
  "time_stamp (one_second_env n) 3 = 3"
  "time_stamp (one_second_env n) 4 = 4"
  "time_stamp (one_second_env n) 5 = 5 + 1 / 2097152"
  unfolding one_second_env_def
  by (rule time_stamp_one_second, simp)+

lemma one_second_time_stamp_Suc: "time_stamp (one_second_env n) (Suc 0) = 1"
  using one_second_time_stamp(2) [of n] by simp

lemma one_second_step:
  "window_step (one_second_env n) buf w i st =
     (Inr \<lparr>m_resultVec = [Suc (snd (pipeline st))], m_timeStamp = time_stamp (one_second_env n) i,
           m_inferenceNumber = i, m_threshold = 1 / 2\<rparr>,
      st\<lparr>pipeline := (fst (pipeline st), Suc (snd (pipeline st))),
         profiler := profiler st @ [StartProfiling ''Inference'', StopProfiling]\<rparr>)"
  by (subst window_step_goes_through)
     (simp_all add: one_second_env_def binary32_def demo_env_def mkKwsResult_def)

lemma one_second_checks: "handler_checks (one_second_env n) 0 demo_app = (None, demo_app)"
  by (simp add: handler_checks_def minTensorDims_def one_second_env_def binary32_def demo_defs)

lemma three_seconds_windows:
  "run_windows (one_second_env 48000) (get_audio_array (one_second_env 48000) 0)
     [0 ..< clip_numWindows (one_second_env 48000) (get_audio_array (one_second_env 48000) 0)]
     demo_app [] =
   (Inr [\<lparr>m_resultVec = [1], m_timeStamp = 0, m_inferenceNumber = 0, m_threshold = 1 / 2\<rparr>,
         \<lparr>m_resultVec = [2], m_timeStamp = 1, m_inferenceNumber = 1, m_threshold = 1 / 2\<rparr>,
         \<lparr>m_resultVec = [3], m_timeStamp = 2, m_inferenceNumber = 2, m_threshold = 1 / 2\<rparr>],
    demo_app\<lparr>pipeline := (\<lparr>m_inited = True\<rparr>, 3),
      profiler := [StartProfiling ''Inference'', StopProfiling, StartProfiling ''Inference'',
         StopProfiling, StartProfiling ''Inference'', StopProfiling]\<rparr>)"
proof -
  have n: "clip_numWindows (one_second_env 48000) (get_audio_array (one_second_env 48000) 0) = 3"
    by (simp add: clip_numWindows_def numWindows_def one_second_stride one_second_window
        one_second_clip)
  have upt: "[0 ..< 3] = [0, 1, 2::nat]" by code_simp
  show ?thesis
    unfolding n upt
    by (simp add: one_second_step one_second_time_stamp one_second_time_stamp_Suc demo_defs)
qed

lemma six_seconds_windows:
  "run_windows (one_second_env 96000) (get_audio_array (one_second_env 96000) 0)
     [0 ..< clip_numWindows (one_second_env 96000) (get_audio_array (one_second_env 96000) 0)]
     demo_app [] =
   (Inr [\<lparr>m_resultVec = [1], m_timeStamp = 0, m_inferenceNumber = 0, m_threshold = 1 / 2\<rparr>,
         \<lparr>m_resultVec = [2], m_timeStamp = 1, m_inferenceNumber = 1, m_threshold = 1 / 2\<rparr>,
         \<lparr>m_resultVec = [3], m_timeStamp = 2, m_inferenceNumber = 2, m_threshold = 1 / 2\<rparr>,
         \<lparr>m_resultVec = [4], m_timeStamp = 3, m_inferenceNumber = 3, m_threshold = 1 / 2\<rparr>,
         \<lparr>m_resultVec = [5], m_timeStamp = 4, m_inferenceNumber = 4, m_threshold = 1 / 2\<rparr>,
         \<lparr>m_resultVec = [6], m_timeStamp = 5 + 1 / 2097152, m_inferenceNumber = 5,
            m_threshold = 1 / 2\<rparr>],
    demo_app\<lparr>pipeline := (\<lparr>m_inited = True\<rparr>, 6),
      profiler := [StartProfiling ''Inference'', StopProfiling, StartProfiling ''Inference'',
         StopProfiling, StartProfiling ''Inference'', StopProfiling,
         StartProfiling ''Inference'', StopProfiling, StartProfiling ''Inference'',
         StopProfiling, StartProfiling ''Inference'', StopProfiling]\<rparr>)"
proof -
  have n: "clip_numWindows (one_second_env 96000) (get_audio_array (one_second_env 96000) 0) = 6"
    by (simp add: clip_numWindows_def numWindows_def one_second_stride one_second_window
        one_second_clip)
  have upt: "[0 ..< 6] = [0, 1, 2, 3, 4, 5::nat]" by code_simp
  show ?thesis
    unfolding n upt
    by (simp add: one_second_step one_second_time_stamp one_second_time_stamp_Suc demo_defs)
qed

lemma three_seconds_clip:
  "process_clip (one_second_env 48000) demo_app = Some (Inr (), after_three_seconds)"
proof -
  have pos: "0 < m_audioDataStride (one_second_env 48000)" by (simp add: one_second_stride)
  have idx: "ctx_clipIndex demo_app = 0" by (simp add: demo_defs)
  show ?thesis
    unfolding process_clip_total [OF pos] idx three_seconds_windows
    by (simp add: after_three_seconds_def demo_defs one_second_env_def binary32_def)
qed

text \<open>
  Claim C6. The claim, as stated, fails: the time stamp is a product of \<^verbatim>\<open>float\<close> values,
  and \<^verbatim>\<open>secondsPerSample\<close> is the \<^verbatim>\<open>float\<close> next to \<open>1 / 16000\<close>, not that number. On a clip of
  six seconds cut into windows of one second, the result of window 5 carries the time
  stamp \<open>5 + 2\<^sup>-\<^sup>2\<^sup>1\<close>.
\<close>

theorem C6_sixth_window_counterexample:
  "ClassifyAudioHandler (one_second_env 96000) 0 False demo_app = Some (Inr (), after_six_seconds) \<and>
   map m_inferenceNumber (the (ctx_results after_six_seconds)) = [0, 1, 2, 3, 4, 5] \<and>
   map m_timeStamp (the (ctx_results after_six_seconds)) = [0, 1, 2, 3, 4, 5 + 1 / 2097152] \<and>
   m_timeStamp (the (ctx_results after_six_seconds) ! 5)
     \<noteq> 5 * of_nat (m_audioDataStride (one_second_env 96000)) / 16000"
proof -
  have pos: "0 < m_audioDataStride (one_second_env 96000)" by (simp add: one_second_stride)
  have "ClassifyAudioHandler (one_second_env 96000) 0 False demo_app = Some (Inr (), after_six_seconds)"
    unfolding handler_first_clip [OF one_second_checks pos]
    unfolding demo_app_def [THEN arg_cong, of ctx_clipIndex, simplified]
    unfolding six_seconds_windows
    by (simp add: after_six_seconds_def demo_defs one_second_env_def binary32_def)
  then show ?thesis
    by (simp add: after_six_seconds_def one_second_stride)
qed

text \<open>
  Claim C6, amended. The result created for window \<open>i\<close> carries the inference index \<open>i\<close>
  and, as its time stamp, the \<^verbatim>\<open>float\<close> product of line 148: the index converted to
  \<^verbatim>\<open>float\<close>, times \<^verbatim>\<open>secondsPerSample\<close>, times the stride converted to \<^verbatim>\<open>float\<close>, rounded after
  each step; so do the results that a clip leaves in the context, position by position.
  In single precision this product is \<open>i * stride / sampleRate\<close> up to rounding only. In
  the scenario of the claim it is exact: with windows and stride of 16000 samples at
  16000 Hz, a clip of 48000 samples has exactly 3 windows, its processing ends, and when
  it goes through the results carry the inference indices 0, 1, 2 and the time stamps
  0, 1 and 2 seconds.
\<close>

theorem C6_time_stamps:
  "(\<forall>buf w i st r st'. window_step E buf w i st = (Inr r, st') \<longrightarrow>
      m_inferenceNumber r = i \<and> m_timeStamp r = time_stamp E i) \<and>
   (\<forall>st st'. process_clip E st = Some (Inr (), st') \<longrightarrow>
      (\<exists>rs. ctx_results st' = Some rs \<and>
         map m_inferenceNumber rs = [0 ..< length rs] \<and>
         map m_timeStamp rs = map (time_stamp E) [0 ..< length rs] \<and>
         (0 < m_audioDataStride E \<longrightarrow>
            length rs = clip_numWindows E (get_audio_array E (ctx_clipIndex st))))) \<and>
   (\<forall>f i. time_stamp (binary32 f B) i =
      fl32 (fl32 (fl32 (of_nat i) * fl32 (fl64 (1 / fl64 (of_nat f))))
            * fl32 (of_nat (m_audioDataStride B)))) \<and>
   (m_audioDataWindowSize B = 16000 \<and> m_audioDataStride B = 16000 \<longrightarrow>
      time_stamp (binary32 16000 B) 0 = 0 \<and>
      time_stamp (binary32 16000 B) 1 = 1 \<and>
      time_stamp (binary32 16000 B) 2 = 2 \<and>
      (\<forall>st. length (get_audio_array B (ctx_clipIndex st)) = 48000 \<longrightarrow>
         clip_numWindows (binary32 16000 B)
           (get_audio_array (binary32 16000 B) (ctx_clipIndex st)) = 3 \<and>
         (\<exists>r st'. process_clip (binary32 16000 B) st = Some (r, st')) \<and>
         (\<forall>st'. process_clip (binary32 16000 B) st = Some (Inr (), st') \<longrightarrow>
            (\<exists>rs. ctx_results st' = Some rs \<and>
               map m_inferenceNumber rs = [0, 1, 2] \<and>
               map m_timeStamp rs = [0, 1, 2]))))"
proof -
  have step: "m_inferenceNumber r = i \<and> m_timeStamp r = time_stamp E i"
    if "window_step E buf w i st = (Inr r, st')" for buf w i st r st' and E :: "('x, 'y, 'z) env"
    using window_step_index [OF that] window_step_timeStamp [OF that]
    by (simp add: time_stamp_def)
  have clip: "\<exists>rs. ctx_results st' = Some rs \<and>
         map m_inferenceNumber rs = [0 ..< length rs] \<and>
         map m_timeStamp rs = map (time_stamp E) [0 ..< length rs] \<and>
         (0 < m_audioDataStride E \<longrightarrow>
            length rs = clip_numWindows E (get_audio_array E (ctx_clipIndex st)))"
    if pc: "process_clip E st = Some (Inr (), st')" for st st' and E :: "('x, 'y, 'z) env"
  proof -
    from process_clip_results_in_order [OF pc] obtain rs where
      rs: "ctx_results st' = Some rs" "map m_inferenceNumber rs = [0 ..< length rs]"
        "\<forall>i < length rs. \<exists>sti sti'.
           run_windows E (get_audio_array E (ctx_clipIndex st)) [0 ..< i] st []
             = (Inr (take i rs), sti) \<and>
           window_step E (get_audio_array E (ctx_clipIndex st)) (clip_window E i) i sti
             = (Inr (rs ! i), sti')"
        "0 < m_audioDataStride E \<longrightarrow>
           length rs = clip_numWindows E (get_audio_array E (ctx_clipIndex st))"
      by (elim exE conjE)
    have "m_timeStamp (rs ! i) = time_stamp E i" if "i < length rs" for i
    proof -
      from rs(3) that obtain sti sti' where
        "window_step E (get_audio_array E (ctx_clipIndex st)) (clip_window E i) i sti
           = (Inr (rs ! i), sti')"
        by blast
      from step [OF this] show ?thesis by simp
    qed
    then have "map m_timeStamp rs = map (time_stamp E) [0 ..< length rs]"
      by (intro nth_equalityI) simp_all
    with rs(1,2,4) show ?thesis by (intro exI [of _ rs] conjI)
  qed
  have part3: "\<forall>f i. time_stamp (binary32 f B) i =
      fl32 (fl32 (fl32 (of_nat i) * fl32 (fl64 (1 / fl64 (of_nat f))))
            * fl32 (of_nat (m_audioDataStride B)))"
    by (intro allI) (rule time_stamp_binary32)
  have part4: "time_stamp (binary32 16000 B) 0 = 0 \<and>
      time_stamp (binary32 16000 B) 1 = 1 \<and>
      time_stamp (binary32 16000 B) 2 = 2 \<and>
      (\<forall>st. length (get_audio_array B (ctx_clipIndex st)) = 48000 \<longrightarrow>
         clip_numWindows (binary32 16000 B)
           (get_audio_array (binary32 16000 B) (ctx_clipIndex st)) = 3 \<and>
         (\<exists>r st'. process_clip (binary32 16000 B) st = Some (r, st')) \<and>
         (\<forall>st'. process_clip (binary32 16000 B) st = Some (Inr (), st') \<longrightarrow>
            (\<exists>rs. ctx_results st' = Some rs \<and>
               map m_inferenceNumber rs = [0, 1, 2] \<and>
               map m_timeStamp rs = [0, 1, 2])))"
    if ws: "m_audioDataWindowSize B = 16000" and stride: "m_audioDataStride B = 16000"
  proof -
    let ?E = "binary32 16000 B"
    note ts = time_stamp_one_second [OF stride]
    from ts(2) have ts1: "time_stamp ?E (Suc 0) = 1" by simp
    have scen: "clip_numWindows ?E (get_audio_array ?E (ctx_clipIndex st)) = 3 \<and>
         (\<exists>r st'. process_clip ?E st = Some (r, st')) \<and>
         (\<forall>st'. process_clip ?E st = Some (Inr (), st') \<longrightarrow>
            (\<exists>rs. ctx_results st' = Some rs \<and>
               map m_inferenceNumber rs = [0, 1, 2] \<and>
               map m_timeStamp rs = [0, 1, 2]))"
      if len: "length (get_audio_array B (ctx_clipIndex st)) = 48000" for st
    proof -
      have pos: "0 < m_audioDataStride ?E" using stride by (simp add: binary32_def)
      have n: "clip_numWindows ?E (get_audio_array ?E (ctx_clipIndex st)) = 3"
        using ws stride len
        by (simp add: clip_numWindows_def binary32_def numWindows_one_second_windows)
      have upt: "[0 ..< 3] = [0, 1, 2::nat]" by code_simp
      have "\<exists>rs. ctx_results st' = Some rs \<and>
               map m_inferenceNumber rs = [0, 1, 2] \<and>
               map m_timeStamp rs = [0, 1, 2]"
        if pc: "process_clip ?E st = Some (Inr (), st')" for st'
      proof -
        from clip [OF pc] pos n obtain rs where
          rs: "ctx_results st' = Some rs" "map m_inferenceNumber rs = [0 ..< length rs]"
            "map m_timeStamp rs = map (time_stamp ?E) [0 ..< length rs]" "length rs = 3"
          by auto
        from rs(2,3) have "map m_inferenceNumber rs = [0, 1, 2]"
          and "map m_timeStamp rs = [0, 1, 2]"
          unfolding rs(4) upt by (simp_all add: ts ts1)
        with rs(1) show ?thesis by (intro exI [of _ rs] conjI)
      qed
      then have "\<forall>st'. process_clip ?E st = Some (Inr (), st') \<longrightarrow>
            (\<exists>rs. ctx_results st' = Some rs \<and>
               map m_inferenceNumber rs = [0, 1, 2] \<and>
               map m_timeStamp rs = [0, 1, 2])"
        by (intro allI impI)
      with n process_clip_returns [OF pos, of st] show ?thesis by (intro conjI)
    qed
    then have "\<forall>st. length (get_audio_array B (ctx_clipIndex st)) = 48000 \<longrightarrow>
         clip_numWindows ?E (get_audio_array ?E (ctx_clipIndex st)) = 3 \<and>
         (\<exists>r st'. process_clip ?E st = Some (r, st')) \<and>
         (\<forall>st'. process_clip ?E st = Some (Inr (), st') \<longrightarrow>
            (\<exists>rs. ctx_results st' = Some rs \<and>
               map m_inferenceNumber rs = [0, 1, 2] \<and>
               map m_timeStamp rs = [0, 1, 2]))"
      by (intro allI impI)
    with ts(1,2,3) show ?thesis by (intro conjI)
  qed
  show ?thesis
    apply (rule conjI)
     apply (intro allI impI)
     apply (erule step)
    apply (rule conjI)
     apply (intro allI impI)
     apply (erule clip)
    apply (rule conjI)
     apply (rule part3)
    apply (intro impI)
    apply (erule conjE)
    apply (erule (1) part4)
    done
qed

theorem C6_time_stamps_witness:
  "m_audioDataWindowSize (one_second_env 48000) = 16000 \<and>
   m_audioDataStride (one_second_env 48000) = 16000 \<and>
   length (get_audio_array (one_second_env 48000) (ctx_clipIndex demo_app)) = 48000 \<and>
   clip_numWindows (one_second_env 48000)
     (get_audio_array (one_second_env 48000) (ctx_clipIndex demo_app)) = 3 \<and>
   process_clip (one_second_env 48000) demo_app = Some (Inr (), after_three_seconds) \<and>
   (\<exists>rs. ctx_results after_three_seconds = Some rs \<and>
      map m_inferenceNumber rs = [0, 1, 2] \<and> map m_timeStamp rs = [0, 1, 2])"
proof -
  let ?B = "demo_env\<lparr>NUMBER_OF_FILES := 1, get_audio_array := (\<lambda>i. replicate 48000 0),
      IncrementAppCtxIfmIdx := (\<lambda>i. 0), scoreThreshold := 1 / 2,
      m_audioDataWindowSize := 16000, m_audioDataStride := 16000\<rparr>"
  have env: "one_second_env 48000 = binary32 16000 ?B"
    by (simp add: one_second_env_def)
  have ws: "m_audioDataWindowSize ?B = 16000 \<and> m_audioDataStride ?B = 16000" by simp
  have len: "length (get_audio_array ?B (ctx_clipIndex demo_app)) = 48000" by simp
  note C6 = C6_time_stamps [where B = ?B and E = demo_env, THEN conjunct2, THEN conjunct2,
      THEN conjunct2, rule_format, OF ws, THEN conjunct2, THEN conjunct2, THEN conjunct2,
      rule_format, OF len, folded env]
  from C6 [THEN conjunct1] have n: "clip_numWindows (one_second_env 48000)
     (get_audio_array (one_second_env 48000) (ctx_clipIndex demo_app)) = 3" .
  from C6 [THEN conjunct2, THEN conjunct2]
  have all: "\<forall>st'. process_clip (one_second_env 48000) demo_app = Some (Inr (), st') \<longrightarrow>
      (\<exists>rs. ctx_results st' = Some rs \<and>
         map m_inferenceNumber rs = [0, 1, 2] \<and> map m_timeStamp rs = [0, 1, 2])" .
  from all [rule_format, OF three_seconds_clip]
  have res: "\<exists>rs. ctx_results after_three_seconds = Some rs \<and>
      map m_inferenceNumber rs = [0, 1, 2] \<and> map m_timeStamp rs = [0, 1, 2]" .
  have "m_audioDataWindowSize (one_second_env 48000) = 16000"
    and "m_audioDataStride (one_second_env 48000) = 16000"
    and "length (get_audio_array (one_second_env 48000) (ctx_clipIndex demo_app)) = 48000"
    by (simp_all add: one_second_stride one_second_window one_second_clip)
  with n three_seconds_clip res show ?thesis by (intro conjI)
qed

subsection \<open>The feature cache\<close>

lemma ComputeOrReuse_expected:
  assumes "windowIndex = expectedIndex c"
  shows "\<exists>rows c'. ComputeOrReuse timeSteps mfcc cfg w windowIndex c = Inr (rows, c') \<and>
           expectedIndex c' = windowIndex + 1 \<and> matrix c' = rows \<and>
           transforms c' = transforms c + length (fresh_rows timeSteps cfg windowIndex)"
  using assms by (simp add: ComputeOrReuse_def Let_def)

lemma ComputeOrReuse_unexpected:
  "windowIndex \<noteq> expectedIndex c \<Longrightarrow>
     ComputeOrReuse timeSteps mfcc cfg w windowIndex c = Inl SequenceViolation"
  by (simp add: ComputeOrReuse_def)

lemma length_fresh_rows_first:
  "length (fresh_rows timeSteps cfg 0) = timeSteps (cfg_windowSize cfg)"
  by (simp add: fresh_rows_def)

lemma length_fresh_rows_later:
  assumes "0 < i" and "timeSteps (cfg_stride cfg) \<le> timeSteps (cfg_windowSize cfg)"
  shows "length (fresh_rows timeSteps cfg i) = timeSteps (cfg_stride cfg)"
  using assms by (simp add: fresh_rows_def)

lemma feed_in_sequence:
  assumes "expectedIndex c = n"
  shows "\<exists>ms c'. feed timeSteps mfcc cfg (enumerate n ws) c = Inr (ms, c') \<and>
           length ms = length ws \<and> expectedIndex c' = n + length ws"
  using assms
proof (induction ws arbitrary: c n)
  case Nil
  then show ?case by simp
next
  case (Cons w ws)
  from ComputeOrReuse_expected [of n c timeSteps mfcc cfg w] Cons.prems obtain rows c1 where
    c1: "ComputeOrReuse timeSteps mfcc cfg w n c = Inr (rows, c1)" "expectedIndex c1 = Suc n"
    by auto
  from Cons.IH [OF c1(2)] obtain ms c' where
    "feed timeSteps mfcc cfg (enumerate (Suc n) ws) c1 = Inr (ms, c')"
    "length ms = length ws" "expectedIndex c' = Suc n + length ws"
    by blast
  with c1 show ?case by simp
qed

lemma feed_later_windows:
  assumes "timeSteps (cfg_stride cfg) \<le> timeSteps (cfg_windowSize cfg)"
  shows "expectedIndex c = n \<Longrightarrow> 0 < n \<Longrightarrow>
    \<exists>ms c'. feed timeSteps mfcc cfg (enumerate n ws) c = Inr (ms, c') \<and>
      length ms = length ws \<and>
      transforms c' = transforms c + length ws * timeSteps (cfg_stride cfg)"
proof (induction ws arbitrary: c n)
  case Nil
  then show ?case by simp
next
  case (Cons w ws)
  from ComputeOrReuse_expected [of n c timeSteps mfcc cfg w] Cons.prems
    length_fresh_rows_later [OF Cons.prems(2) assms]
  obtain rows c1 where
    c1: "ComputeOrReuse timeSteps mfcc cfg w n c = Inr (rows, c1)" "expectedIndex c1 = Suc n"
      "transforms c1 = transforms c + timeSteps (cfg_stride cfg)"
    by auto
  from Cons.IH [OF c1(2)] obtain ms c' where
    "feed timeSteps mfcc cfg (enumerate (Suc n) ws) c1 = Inr (ms, c')"
    "length ms = length ws"
    "transforms c' = transforms c1 + length ws * timeSteps (cfg_stride cfg)"
    by auto
  with c1 show ?case by simp
qed

lemma feed_append:
  "feed timeSteps mfcc cfg (xs @ ys) c =
     (case feed timeSteps mfcc cfg xs c of
        Inl e \<Rightarrow> Inl e
      | Inr (ms, c') \<Rightarrow>
          (case feed timeSteps mfcc cfg ys c' of
             Inl e \<Rightarrow> Inl e
           | Inr (ms', c'') \<Rightarrow> Inr (ms @ ms', c'')))"
  by (induction xs arbitrary: c) (auto split: sum.splits prod.splits)

lemma in_sequence_prefix:
  assumes "k \<le> length calls" and "\<forall>j<k. fst (calls ! j) = j"
  shows "take k calls = enumerate 0 (map snd (take k calls))"
proof (rule nth_equalityI)
  show "length (take k calls) = length (enumerate 0 (map snd (take k calls)))" by simp
next
  fix i assume "i < length (take k calls)"
  with assms have i: "i < k" "i < length calls" by simp_all
  with assms(2) have "fst (calls ! i) = i" by simp
  with i show "take k calls ! i = enumerate 0 (map snd (take k calls)) ! i"
    by (simp add: nth_enumerate_eq prod_eq_iff)
qed

text \<open>
  Claim C2. When the stride covers no more time steps than the window, a cache fed the
  windows of a clip under the indices \<open>0, 1, 2, ...\<close> accepts all of them and has invoked
  the spectral transform \<open>timeSteps windowSize\<close> times for window 0 plus \<open>timeSteps stride\<close>
  times for each later window. Call by call: window 0 costs \<open>timeSteps windowSize\<close>
  transforms, any later window in sequence costs \<open>timeSteps stride\<close>.
\<close>

theorem C2_transform_invocations:
  assumes "timeSteps (cfg_stride cfg) \<le> timeSteps (cfg_windowSize cfg)"
  shows "(\<exists>ms c. feed timeSteps mfcc cfg (enumerate 0 (w # ws)) new_cache = Inr (ms, c) \<and>
            length ms = length (w # ws) \<and>
            transforms c = timeSteps (cfg_windowSize cfg) + length ws * timeSteps (cfg_stride cfg)) \<and>
         (\<exists>rows c1. ComputeOrReuse timeSteps mfcc cfg w 0 new_cache = Inr (rows, c1) \<and>
            transforms c1 = timeSteps (cfg_windowSize cfg)) \<and>
         (\<forall>c0. 0 < expectedIndex c0 \<longrightarrow>
            (\<exists>rows c1. ComputeOrReuse timeSteps mfcc cfg w (expectedIndex c0) c0 = Inr (rows, c1) \<and>
               transforms c1 = transforms c0 + timeSteps (cfg_stride cfg)))"
proof (intro conjI allI impI)
  have first: "\<exists>rows c1. ComputeOrReuse timeSteps mfcc cfg w 0 new_cache = Inr (rows, c1) \<and>
      expectedIndex c1 = Suc 0 \<and> transforms c1 = timeSteps (cfg_windowSize cfg)"
    by (simp add: ComputeOrReuse_def new_cache_def fresh_rows_def Let_def)
  then show "\<exists>rows c1. ComputeOrReuse timeSteps mfcc cfg w 0 new_cache = Inr (rows, c1) \<and>
      transforms c1 = timeSteps (cfg_windowSize cfg)"
    by blast
  from first obtain rows c1 where
    c1: "ComputeOrReuse timeSteps mfcc cfg w 0 new_cache = Inr (rows, c1)"
      "expectedIndex c1 = Suc 0" "transforms c1 = timeSteps (cfg_windowSize cfg)"
    by blast
  from feed_later_windows [OF assms c1(2), of mfcc ws] obtain ms c where
    "feed timeSteps mfcc cfg (enumerate (Suc 0) ws) c1 = Inr (ms, c)"
    "length ms = length ws"
    "transforms c = transforms c1 + length ws * timeSteps (cfg_stride cfg)"
    by auto
  with c1 show "\<exists>ms c. feed timeSteps mfcc cfg (enumerate 0 (w # ws)) new_cache = Inr (ms, c) \<and>
            length ms = length (w # ws) \<and>
            transforms c = timeSteps (cfg_windowSize cfg) + length ws * timeSteps (cfg_stride cfg)"
    by simp
next
  fix c0 :: "'a feature_cache"
  assume pos: "0 < expectedIndex c0"
  from ComputeOrReuse_expected [of "expectedIndex c0" c0 timeSteps mfcc cfg w]
    length_fresh_rows_later [OF pos assms]
  show "\<exists>rows c1. ComputeOrReuse timeSteps mfcc cfg w (expectedIndex c0) c0 = Inr (rows, c1) \<and>
               transforms c1 = transforms c0 + timeSteps (cfg_stride cfg)"
    by auto
qed

theorem C2_transform_invocations_witness:
  "(\<exists>ms c. feed (\<lambda>n. n div 2) length
     \<lparr>cfg_windowSize = 4, cfg_stride = 2, cfg_frameLength = 2, cfg_frameStride = 2\<rparr>
     (enumerate 0 [replicate 4 0, replicate 4 0, replicate 4 0]) (new_cache :: nat feature_cache)
       = Inr (ms, c) \<and> length ms = 3 \<and> transforms c = 4)"
proof -
  let ?cfg = "\<lparr>cfg_windowSize = 4, cfg_stride = 2, cfg_frameLength = 2, cfg_frameStride = 2\<rparr>"
  have h: "(\<lambda>n. n div 2) (cfg_stride ?cfg) \<le> (\<lambda>n. n div 2) (cfg_windowSize ?cfg)" by simp
  note C2 = C2_transform_invocations [where timeSteps = "\<lambda>n. n div 2" and cfg = ?cfg
    and mfcc = length and w = "replicate 4 0" and ws = "[replicate 4 0, replicate 4 0]", OF h]
  from C2 [THEN conjunct1] obtain ms c where
    "feed (\<lambda>n. n div 2) length ?cfg
       (enumerate 0 [replicate 4 0, replicate 4 0, replicate 4 0]) (new_cache :: nat feature_cache)
       = Inr (ms, c)"
    "length ms = length [replicate 4 (0 :: 16 word), replicate 4 0, replicate 4 0]"
    "transforms c = (\<lambda>n. n div 2) (cfg_windowSize ?cfg) +
        length [replicate 4 (0 :: 16 word), replicate 4 0] * (\<lambda>n. n div 2) (cfg_stride ?cfg)"
    by (elim exE conjE)
  then show ?thesis by (intro exI [of _ ms] exI [of _ c]) simp
qed

text \<open>
  Claim C3. When the calls on a fresh cache carry the indices \<open>0 .. k-1\<close> in order and call
  \<open>k\<close> carries an index other than \<open>k\<close> (a skipped or a repeated one), the first \<open>k\<close> calls
  return their matrices, call \<open>k\<close> is a \<open>SequenceViolation\<close>, and so is the whole sequence:
  no matrix is returned for the call or for any call after it.
\<close>

theorem C3_sequence_violation:
  assumes "k < length calls" and "\<forall>j<k. fst (calls ! j) = j" and "fst (calls ! k) \<noteq> k"
  shows "feed timeSteps mfcc cfg calls new_cache = Inl SequenceViolation \<and>
         (\<exists>ms c. feed timeSteps mfcc cfg (take k calls) new_cache = Inr (ms, c) \<and>
            length ms = k \<and>
            ComputeOrReuse timeSteps mfcc cfg (snd (calls ! k)) (fst (calls ! k)) c
              = Inl SequenceViolation)"
proof -
  have e0: "expectedIndex (new_cache :: 'a feature_cache) = 0" by (simp add: new_cache_def)
  from assms(1) have kle: "k \<le> length calls" by simp
  have pre: "take k calls = enumerate 0 (map snd (take k calls))"
    using kle assms(2) by (rule in_sequence_prefix)
  from feed_in_sequence [OF e0, of timeSteps mfcc cfg "map snd (take k calls)"] pre kle
  obtain ms c where
    f: "feed timeSteps mfcc cfg (take k calls) new_cache = Inr (ms, c)" "length ms = k"
      "expectedIndex c = k"
    by (auto simp: min_def)
  obtain i w where ck: "calls ! k = (i, w)" by (cases "calls ! k")
  from f(3) assms(3) ck
  have bad: "ComputeOrReuse timeSteps mfcc cfg w i c = Inl SequenceViolation"
    by (simp add: ComputeOrReuse_unexpected)
  have split: "calls = take k calls @ (i, w) # drop (Suc k) calls"
    using id_take_nth_drop [OF assms(1)] ck by simp
  have "feed timeSteps mfcc cfg (take k calls @ (i, w) # drop (Suc k) calls) new_cache
      = Inl SequenceViolation"
    by (simp add: feed_append f(1) bad)
  with split have "feed timeSteps mfcc cfg calls new_cache = Inl SequenceViolation"
    by simp
  with f bad ck show ?thesis by auto
qed

theorem C3_sequence_violation_witness:
  "feed (\<lambda>n. n div 2) length
     \<lparr>cfg_windowSize = 4, cfg_stride = 2, cfg_frameLength = 2, cfg_frameStride = 2\<rparr>
     [(0, replicate 4 0), (1, replicate 4 0), (1, replicate 4 0)] (new_cache :: nat feature_cache)
   = Inl SequenceViolation \<and>
   (\<exists>ms c. feed (\<lambda>n. n div 2) length
     \<lparr>cfg_windowSize = 4, cfg_stride = 2, cfg_frameLength = 2, cfg_frameStride = 2\<rparr>
     [(0, replicate 4 0), (1, replicate 4 0)] (new_cache :: nat feature_cache) = Inr (ms, c) \<and>
     length ms = 2)"
proof -
  let ?calls = "[(0, replicate 4 0), (1, replicate 4 0), (1::nat, replicate 4 (0 :: 16 word))]"
  let ?cfg = "\<lparr>cfg_windowSize = 4, cfg_stride = 2, cfg_frameLength = 2, cfg_frameStride = 2\<rparr>"
  have 1: "2 < length ?calls" by simp
  have 2: "\<forall>j<2. fst (?calls ! j) = j" by (simp add: less_Suc_eq numeral_2_eq_2)
  have 3: "fst (?calls ! 2) \<noteq> 2" by simp
  have t: "take 2 ?calls = [(0, replicate 4 0), (1, replicate 4 0)]" by simp
  note C3 = C3_sequence_violation [OF 1 2 3, where timeSteps = "\<lambda>n. n div 2" and mfcc = length
    and cfg = ?cfg]
  from C3 [unfolded t] show ?thesis by blast
qed

subsection \<open>The score filter\<close>

lemma set_insert_desc: "set (insert_desc c ds) = insert c (set ds)"
  by (induction ds) auto

lemma ranked_before_trans_le:
  "ranked_before d e \<Longrightarrow> m_normalisedVal d \<le> m_normalisedVal c \<Longrightarrow>
     m_labelIdx c < m_labelIdx d \<Longrightarrow> ranked_before c e"
  by (auto simp: ranked_before_def)

lemma sorted_insert_desc:
  assumes "sorted_wrt ranked_before ds" and "\<forall>d \<in> set ds. m_labelIdx c < m_labelIdx d"
  shows "sorted_wrt ranked_before (insert_desc c ds)"
  using assms
proof (induction ds)
  case Nil
  then show ?case by simp
next
  case (Cons d ds)
  show ?case
  proof (cases "m_normalisedVal d \<le> m_normalisedVal c")
    case True
    from Cons.prems have cd: "ranked_before c d"
      using True by (auto simp: ranked_before_def)
    have "\<forall>e \<in> set ds. ranked_before c e"
    proof
      fix e assume "e \<in> set ds"
      with Cons.prems(1) have "ranked_before d e" by simp
      then show "ranked_before c e"
        using True Cons.prems(2) by (auto intro: ranked_before_trans_le)
    qed
    with cd Cons.prems(1) True show ?thesis by simp
  next
    case False
    then have "m_normalisedVal c < m_normalisedVal d" by (rule not_le_imp_less)
    then have "ranked_before d c" by (simp add: ranked_before_def)
    moreover from Cons have "sorted_wrt ranked_before (insert_desc c ds)" by simp
    ultimately show ?thesis
      using False Cons.prems(1) by (auto simp: set_insert_desc)
  qed
qed

lemma sorted_sort_desc:
  assumes "sorted_wrt (\<lambda>a b. m_labelIdx a < m_labelIdx b) cs"
  shows "sorted_wrt ranked_before (sort_desc cs)"
  using assms
proof (induction cs)
  case Nil
  then show ?case by (simp add: sort_desc_def)
next
  case (Cons c cs)
  have set_eq: "set (foldr insert_desc cs []) = set cs"
    by (induction cs) (simp_all add: set_insert_desc)
  from Cons have "sorted_wrt ranked_before (foldr insert_desc cs [])"
    by (simp add: sort_desc_def)
  moreover from Cons.prems have "\<forall>d \<in> set (foldr insert_desc cs []). m_labelIdx c < m_labelIdx d"
    by (simp add: set_eq)
  ultimately show ?case
    by (simp add: sort_desc_def sorted_insert_desc)
qed

lemma candidates_index_order:
  "sorted_wrt (\<lambda>a b. m_labelIdx a < m_labelIdx b) (candidates normalise outputTensor labels)"
proof -
  have "map m_labelIdx (candidates normalise outputTensor labels) =
      map fst (zip [0 ..< length outputTensor] (zip labels outputTensor))"
    by (simp add: candidates_def case_prod_unfold comp_def)
  also have "\<dots> = take (length (zip labels outputTensor)) [0 ..< length outputTensor]"
    by (simp add: map_fst_zip_take)
  finally have "sorted_wrt (<) (map m_labelIdx (candidates normalise outputTensor labels))"
    by (simp add: sorted_wrt_take)
  then show ?thesis by (simp add: sorted_wrt_map)
qed

lemma set_sort_desc: "set (sort_desc cs) = set cs"
  by (induction cs) (simp_all add: sort_desc_def set_insert_desc)

text \<open>
  Claim C5. On a non-empty output tensor the score filter returns a list (never an error):
  no candidate in it is below the threshold, it is in descending score order with equal
  scores in label-table order, it has at most \<open>topK\<close> entries, all of them candidates of the
  tensor. When every score is below the threshold the list is empty, which is a result and
  not an error; only an empty tensor is an error.
\<close>

theorem C5_score_filter:
  "(outputTensor \<noteq> [] \<longrightarrow>
      (\<exists>cs. Filter normalise outputTensor labels threshold topK = Inr cs \<and>
         (\<forall>c \<in> set cs. \<not> m_normalisedVal c < threshold) \<and>
         sorted_wrt ranked_before cs \<and>
         length cs \<le> topK \<and>
         set cs \<subseteq> set (candidates normalise outputTensor labels))) \<and>
   (outputTensor \<noteq> [] \<and> (\<forall>q \<in> set outputTensor. normalise q < threshold) \<longrightarrow>
      Filter normalise outputTensor labels threshold topK = Inr []) \<and>
   (outputTensor = [] \<longrightarrow>
      Filter normalise outputTensor labels threshold topK = Inl EmptyOutputTensor)"
proof (intro conjI impI)
  let ?sorted = "sort_desc (candidates normalise outputTensor labels)"
  let ?cs = "filter (\<lambda>c. threshold \<le> m_normalisedVal c) (take topK ?sorted)"
  assume ne: "outputTensor \<noteq> []"
  then have F: "Filter normalise outputTensor labels threshold topK = Inr ?cs"
    by (simp add: Filter_def)
  have "sorted_wrt ranked_before ?sorted"
    using candidates_index_order by (rule sorted_sort_desc)
  then have "sorted_wrt ranked_before (take topK ?sorted)"
    by (rule sorted_wrt_take)
  then have srt: "sorted_wrt ranked_before ?cs"
    by (rule sorted_wrt_filter)
  have thr: "\<forall>c \<in> set ?cs. \<not> m_normalisedVal c < threshold"
    by auto
  have len: "length ?cs \<le> topK"
    by (rule order_trans [OF length_filter_le]) simp
  have sub: "set ?cs \<subseteq> set (candidates normalise outputTensor labels)"
    using set_take_subset [of topK ?sorted] by (auto simp: set_sort_desc)
  from F thr srt len sub
  show "\<exists>cs. Filter normalise outputTensor labels threshold topK = Inr cs \<and>
         (\<forall>c \<in> set cs. \<not> m_normalisedVal c < threshold) \<and>
         sorted_wrt ranked_before cs \<and>
         length cs \<le> topK \<and>
         set cs \<subseteq> set (candidates normalise outputTensor labels)"
    by blast
next
  assume h: "outputTensor \<noteq> [] \<and> (\<forall>q \<in> set outputTensor. normalise q < threshold)"
  let ?sorted = "sort_desc (candidates normalise outputTensor labels)"
  have "\<forall>c \<in> set (candidates normalise outputTensor labels). m_normalisedVal c < threshold"
    using h by (auto simp: candidates_def dest!: set_zip_rightD)
  then have "\<forall>c \<in> set (take topK ?sorted). \<not> threshold \<le> m_normalisedVal c"
    using set_take_subset [of topK ?sorted] by (auto simp: set_sort_desc not_le)
  then have "filter (\<lambda>c. threshold \<le> m_normalisedVal c) (take topK ?sorted) = []"
    by (simp add: filter_empty_conv)
  with h show "Filter normalise outputTensor labels threshold topK = Inr []"
    by (simp add: Filter_def)
next
  assume "outputTensor = []"
  then show "Filter normalise outputTensor labels threshold topK = Inl EmptyOutputTensor"
    by (simp add: Filter_def)
qed

theorem C5_score_filter_witness:
  "Filter (\<lambda>q. q) [95 / 100, 4 / 10, 3 / 10 :: rat] [''yes'', ''no'', ''up''] (9 / 10) 3 =
     Inr [\<lparr>m_label = ''yes'', m_normalisedVal = 95 / 100, m_labelIdx = 0\<rparr>] \<and>
   Filter (\<lambda>q. q) [4 / 10, 3 / 10 :: rat] [''no'', ''up''] (9 / 10) 3 = Inr [] \<and>
   Filter (\<lambda>q. q) [5, 7, 5, 7 :: rat] [''a'', ''b'', ''c'', ''d''] 1 3 =
     Inr [\<lparr>m_label = ''b'', m_normalisedVal = 7, m_labelIdx = 1\<rparr>,
          \<lparr>m_label = ''d'', m_normalisedVal = 7, m_labelIdx = 3\<rparr>,
          \<lparr>m_label = ''a'', m_normalisedVal = 5, m_labelIdx = 0\<rparr>] \<and>
   sorted_wrt ranked_before
     [\<lparr>m_label = ''b'', m_normalisedVal = 7 :: rat, m_labelIdx = 1\<rparr>,
      \<lparr>m_label = ''d'', m_normalisedVal = 7, m_labelIdx = 3\<rparr>,
      \<lparr>m_label = ''a'', m_normalisedVal = 5, m_labelIdx = 0\<rparr>] \<and>
   Filter (\<lambda>q. q) ([] :: rat list) [''a''] 1 3 = Inl EmptyOutputTensor"
proof -
  note C5a = C5_score_filter [of "[4 / 10, 3 / 10 :: rat]" "\<lambda>q. q" "[''no'', ''up'']" "9 / 10" 3]
  note C5b = C5_score_filter [of "[5, 7, 5, 7 :: rat]" "\<lambda>q. q" "[''a'', ''b'', ''c'', ''d'']" 1 3]
  note C5c = C5_score_filter [of "[] :: rat list" "\<lambda>q. q" "[''a'']" 1 3]
  have below: "[4 / 10, 3 / 10 :: rat] \<noteq> [] \<and>
      (\<forall>q \<in> set [4 / 10, 3 / 10 :: rat]. (\<lambda>q. q) q < 9 / 10)"
    by simp
  from C5a below
  have none: "Filter (\<lambda>q. q) [4 / 10, 3 / 10 :: rat] [''no'', ''up''] (9 / 10) 3 = Inr []"
    by blast
  have yes: "Filter (\<lambda>q. q) [95 / 100, 4 / 10, 3 / 10 :: rat] [''yes'', ''no'', ''up''] (9 / 10) 3 =
     Inr [\<lparr>m_label = ''yes'', m_normalisedVal = 95 / 100, m_labelIdx = 0\<rparr>]"
    by (simp add: Filter_def candidates_def sort_desc_def upt_rec)
  have ties: "Filter (\<lambda>q. q) [5, 7, 5, 7 :: rat] [''a'', ''b'', ''c'', ''d''] 1 3 =
     Inr [\<lparr>m_label = ''b'', m_normalisedVal = 7, m_labelIdx = 1\<rparr>,
          \<lparr>m_label = ''d'', m_normalisedVal = 7, m_labelIdx = 3\<rparr>,
          \<lparr>m_label = ''a'', m_normalisedVal = 5, m_labelIdx = 0\<rparr>]"
    by (simp add: Filter_def candidates_def sort_desc_def upt_rec)
  have "[5, 7, 5, 7 :: rat] \<noteq> []" by simp
  with C5b obtain cs where
    "Filter (\<lambda>q. q) [5, 7, 5, 7 :: rat] [''a'', ''b'', ''c'', ''d''] 1 3 = Inr cs"
    "sorted_wrt ranked_before cs"
    by blast
  with ties have ordered: "sorted_wrt ranked_before
     [\<lparr>m_label = ''b'', m_normalisedVal = 7 :: rat, m_labelIdx = 1\<rparr>,
      \<lparr>m_label = ''d'', m_normalisedVal = 7, m_labelIdx = 3\<rparr>,
      \<lparr>m_label = ''a'', m_normalisedVal = 5, m_labelIdx = 0\<rparr>]"
    by simp
  from C5c have empty: "Filter (\<lambda>q. q) ([] :: rat list) [''a''] 1 3 = Inl EmptyOutputTensor"
    by blast
  from yes none ties ordered empty show ?thesis by (intro conjI)
qed

end
